theory Spec2Isabelle
  imports Main "HOL-Library.Char_ord" "HOL-Library.List_Lexorder" "HOL-Library.Sublist"
    "HOL-Library.AList"
begin

section \<open>Data model\<close>

text \<open>
  A Go \<open>string\<close> and a Go \<open>[]byte\<close> are both modelled as \<^typ>\<open>string\<close>, a list of
  8-bit characters, one per byte.  A Go \<open>map[K]V\<close> is modelled as an association list
  with one pair per key; the order of the list stands for the order in which \<open>range\<close>
  happens to visit the map, which Go leaves unspecified.
\<close>

text \<open>An \<open>error\<close> value: \<open>Errorf msg\<close> is \<open>fmt.Errorf(msg)\<close> or \<open>errors.New(msg)\<close>,
  \<open>Wrapf msg e\<close> is \<open>fmt.Errorf(msg + ": %w", e)\<close>.\<close>

datatype error = Errorf string | Wrapf string error

text \<open>parser.go: \<open>type Platform struct { OS, Arch string }\<close>.\<close>

record Platform =
  OS :: string
  Arch :: string

text \<open>parser.go: \<open>type Version struct { Tag string; Checksums map[Platform]string }\<close>.\<close>

record Version =
  Tag :: string
  Checksums :: "(Platform \<times> string) list"

text \<open>github.go: \<open>type Release struct { TagName string }\<close>.\<close>

record Release =
  TagName :: string

text \<open>generator.go: \<open>VersionData\<close> and \<open>TemplateData\<close>.\<close>

record VersionData =
  vdTag :: string
  ChecksumsByOS :: "(string \<times> (string \<times> string) list) list"

record TemplateData =
  GeneratedAt :: string
  DefaultVersion :: string
  Versions :: "VersionData list"

section \<open>parser.go\<close>

subsection \<open>isValidSHA256\<close>

text \<open>
  The loop \<open>for _, c := range hash\<close> with its three range tests.  Go ranges over runes;
  a byte of \<open>0x80\<close> or more decodes to a rune of \<open>0x80\<close> or more (or to U+FFFD), which
  fails the three tests exactly as the byte itself does, so the loop is modelled on bytes.
\<close>

fun isValidSHA256_loop :: "string \<Rightarrow> bool" where
  "isValidSHA256_loop [] = True"
| "isValidSHA256_loop (c # cs) =
    (if (c < CHR ''0'' \<or> c > CHR ''9'') \<and> (c < CHR ''a'' \<or> c > CHR ''f'') \<and>
        (c < CHR ''A'' \<or> c > CHR ''F'')
     then False
     else isValidSHA256_loop cs)"

definition isValidSHA256 :: "string \<Rightarrow> bool" where
  "isValidSHA256 hash = (if length hash \<noteq> 64 then False else isValidSHA256_loop hash)"

subsection \<open>The regular expression of ExtractPlatformFromFilename\<close>

text \<open>
  \<open>regexp.MustCompile(`golangci-lint-[\d.]+-([\w]+)-([\w]+)\.(tar\.gz|zip)`)\<close>.
  Go's \<open>regexp\<close> returns the leftmost match, and among the matches at that position the
  one a backtracking matcher finds first.  The matcher below is that backtracking
  matcher, written with continuations: a continuation receives the text a piece of
  the pattern consumed and the rest of the input.  The pattern has no anchor.
  All literals and classes of the pattern are ASCII, so matching bytes and matching
  runes agree.
\<close>

definition is_digit :: "char \<Rightarrow> bool" where
  "is_digit c = (CHR ''0'' \<le> c \<and> c \<le> CHR ''9'')"

text \<open>The class \<open>[\d.]\<close>.\<close>

definition is_digit_or_dot :: "char \<Rightarrow> bool" where
  "is_digit_or_dot c = (is_digit c \<or> c = CHR ''.'')"

text \<open>The class \<open>\w\<close>, which in Go is \<open>[0-9A-Za-z_]\<close>.\<close>

definition is_word :: "char \<Rightarrow> bool" where
  "is_word c = (is_digit c \<or> (CHR ''A'' \<le> c \<and> c \<le> CHR ''Z'') \<or>
     (CHR ''a'' \<le> c \<and> c \<le> CHR ''z'') \<or> c = CHR ''_'')"

text \<open>A literal.\<close>

definition lit :: "string \<Rightarrow> string \<Rightarrow> (string \<Rightarrow> string \<Rightarrow> 'a option) \<Rightarrow> 'a option" where
  "lit l s k = (if take (length l) s = l then k l (drop (length l) s) else None)"

text \<open>Greedy \<open>c*\<close> after the text \<open>acc\<close> was consumed: one more character is tried
  first, and the continuation is tried on what is left only if that fails.\<close>

fun star_class :: "(char \<Rightarrow> bool) \<Rightarrow> string \<Rightarrow> string \<Rightarrow> (string \<Rightarrow> string \<Rightarrow> 'a option) \<Rightarrow> 'a option" where
  "star_class P acc [] k = k acc []"
| "star_class P acc (c # cs) k =
    (if P c
     then (case star_class P (acc @ [c]) cs k of
             Some r \<Rightarrow> Some r
           | None \<Rightarrow> k acc (c # cs))
     else k acc (c # cs))"

text \<open>Greedy \<open>c+\<close>.\<close>

definition plus_class :: "(char \<Rightarrow> bool) \<Rightarrow> string \<Rightarrow> (string \<Rightarrow> string \<Rightarrow> 'a option) \<Rightarrow> 'a option" where
  "plus_class P s k =
    (case s of
       [] \<Rightarrow> None
     | c # cs \<Rightarrow> if P c then star_class P [c] cs k else None)"

text \<open>Alternation \<open>a|b\<close>: the left branch first.\<close>

definition alt ::
  "(string \<Rightarrow> (string \<Rightarrow> string \<Rightarrow> 'a option) \<Rightarrow> 'a option) \<Rightarrow>
   (string \<Rightarrow> (string \<Rightarrow> string \<Rightarrow> 'a option) \<Rightarrow> 'a option) \<Rightarrow>
   string \<Rightarrow> (string \<Rightarrow> string \<Rightarrow> 'a option) \<Rightarrow> 'a option" where
  "alt a b s k = (case a s k of Some r \<Rightarrow> Some r | None \<Rightarrow> b s k)"

text \<open>The pattern matched at the start of \<open>s\<close>.  The result is the list of submatches
  as \<open>FindStringSubmatch\<close> gives it: the whole match, then the three groups.\<close>

definition pattern_at :: "string \<Rightarrow> string list option" where
  "pattern_at s =
    lit ''golangci-lint-'' s (\<lambda>_ s1.
    plus_class is_digit_or_dot s1 (\<lambda>_ s2.
    lit ''-'' s2 (\<lambda>_ s3.
    plus_class is_word s3 (\<lambda>g1 s4.
    lit ''-'' s4 (\<lambda>_ s5.
    plus_class is_word s5 (\<lambda>g2 s6.
    lit ''.'' s6 (\<lambda>_ s7.
    alt (lit ''tar.gz'') (lit ''zip'') s7 (\<lambda>g3 s8.
    Some [take (length s - length s8) s, g1, g2, g3]))))))))"

text \<open>\<open>pattern.FindStringSubmatch\<close>: the match at the leftmost position that has one;
  \<open>nil\<close>, here the empty list, when no position has one.\<close>

fun FindStringSubmatch :: "string \<Rightarrow> string list" where
  "FindStringSubmatch [] = (case pattern_at [] of Some m \<Rightarrow> m | None \<Rightarrow> [])"
| "FindStringSubmatch (c # cs) =
    (case pattern_at (c # cs) of Some m \<Rightarrow> m | None \<Rightarrow> FindStringSubmatch cs)"

subsection \<open>ExtractPlatformFromFilename\<close>

definition ExtractPlatformFromFilename :: "string \<Rightarrow> error + Platform" where
  "ExtractPlatformFromFilename filename =
    (let matches = FindStringSubmatch filename in
     if length matches \<noteq> 4
     then Inl (Errorf (''filename does not match expected pattern: '' @ filename))
     else Inr \<lparr>OS = matches ! 1, Arch = matches ! 2\<rparr>)"

subsection \<open>The matcher, piece by piece\<close>

lemma lit_Some_iff:
  "lit l s k = Some r \<longleftrightarrow> (\<exists>rest. s = l @ rest \<and> k l rest = Some r)"
proof
  assume a: "lit l s k = Some r"
  then have t: "take (length l) s = l" by (simp add: lit_def split: if_splits)
  from a t have "k l (drop (length l) s) = Some r" by (simp add: lit_def)
  moreover have "s = l @ drop (length l) s" using t by (metis append_take_drop_id)
  ultimately show "\<exists>rest. s = l @ rest \<and> k l rest = Some r" by blast
next
  assume "\<exists>rest. s = l @ rest \<and> k l rest = Some r"
  then show "lit l s k = Some r" by (auto simp: lit_def)
qed

lemma lit_append: "lit l (l @ rest) k = k l rest"
  by (simp add: lit_def)

lemma star_class_sound:
  "star_class P acc s k = Some r \<Longrightarrow>
     \<exists>m rest. s = m @ rest \<and> list_all P m \<and> k (acc @ m) rest = Some r"
proof (induction s arbitrary: acc)
  case Nil
  then show ?case by auto
next
  case (Cons c cs)
  show ?case
  proof (cases "P c \<and> star_class P (acc @ [c]) cs k \<noteq> None")
    case True
    then obtain r' where r': "star_class P (acc @ [c]) cs k = Some r'" by auto
    with True Cons.prems have "r' = r" by simp
    with r' Cons.IH[of "acc @ [c]"] obtain m rest where
      "cs = m @ rest" "list_all P m" "k ((acc @ [c]) @ m) rest = Some r" by blast
    with True have "c # cs = (c # m) @ rest \<and> list_all P (c # m) \<and> k (acc @ (c # m)) rest = Some r"
      by simp
    then show ?thesis by blast
  next
    case False
    with Cons.prems have "k acc (c # cs) = Some r" by (auto split: if_splits option.splits)
    then have "c # cs = [] @ (c # cs) \<and> list_all P [] \<and> k (acc @ []) (c # cs) = Some r" by simp
    then show ?thesis by blast
  qed
qed

lemma plus_class_sound:
  assumes "plus_class P s k = Some r"
  shows "\<exists>m rest. s = m @ rest \<and> m \<noteq> [] \<and> list_all P m \<and> k m rest = Some r"
proof (cases s)
  case Nil
  with assms show ?thesis by (simp add: plus_class_def)
next
  case (Cons c cs)
  with assms have pc: "P c" and st: "star_class P [c] cs k = Some r"
    by (auto simp: plus_class_def split: if_splits)
  from star_class_sound[OF st] obtain m rest where
    "cs = m @ rest" "list_all P m" "k ([c] @ m) rest = Some r" by blast
  with pc Cons have "s = (c # m) @ rest \<and> c # m \<noteq> [] \<and> list_all P (c # m) \<and> k (c # m) rest = Some r"
    by simp
  then show ?thesis by blast
qed

lemma star_class_maximal:
  assumes "list_all P m" and "rest = [] \<or> \<not> P (hd rest)"
    and "\<And>a r. r \<noteq> [] \<Longrightarrow> P (hd r) \<Longrightarrow> k a r = None"
  shows "star_class P acc (m @ rest) k = k (acc @ m) rest"
  using assms(1)
proof (induction m arbitrary: acc)
  case Nil
  show ?case
  proof (cases rest)
    case Nil
    then show ?thesis by simp
  next
    case (Cons c cs)
    with assms(2) show ?thesis by simp
  qed
next
  case (Cons x xs)
  then have px: "P x" and ih: "star_class P (acc @ [x]) (xs @ rest) k = k (acc @ x # xs) rest"
    by simp_all
  show ?case
  proof (cases "k (acc @ x # xs) rest")
    case None
    moreover have "k acc (x # xs @ rest) = None" using assms(3)[of "x # xs @ rest" acc] px by simp
    ultimately show ?thesis using px ih by simp
  next
    case (Some r)
    then show ?thesis using px ih by simp
  qed
qed

lemma plus_class_maximal:
  assumes "m \<noteq> []" "list_all P m" and "rest = [] \<or> \<not> P (hd rest)"
    and "\<And>a r. r \<noteq> [] \<Longrightarrow> P (hd r) \<Longrightarrow> k a r = None"
  shows "plus_class P (m @ rest) k = k m rest"
proof -
  from assms(1) obtain x xs where m: "m = x # xs" by (cases m) auto
  with assms(2) have "P x" "list_all P xs" by simp_all
  then show ?thesis
    using star_class_maximal[of P xs rest k "[x]"] assms(3,4) m by (simp add: plus_class_def)
qed

lemma lit_char_None: "r \<noteq> [] \<Longrightarrow> hd r \<noteq> c \<Longrightarrow> lit [c] r k = None"
  by (cases r) (simp_all add: lit_def)

lemma alt_ext_Some:
  assumes "alt (lit ''tar.gz'') (lit ''zip'') s k = Some r"
  shows "\<exists>ext rest. s = ext @ rest \<and> (ext = ''tar.gz'' \<or> ext = ''zip'') \<and> k ext rest = Some r"
proof (cases "lit ''tar.gz'' s k")
  case None
  with assms have "lit ''zip'' s k = Some r" by (simp add: alt_def)
  then obtain rest where "s = ''zip'' @ rest \<and> k ''zip'' rest = Some r"
    unfolding lit_Some_iff by blast
  then show ?thesis by blast
next
  case (Some r')
  with assms have "lit ''tar.gz'' s k = Some r" by (simp add: alt_def)
  then obtain rest where "s = ''tar.gz'' @ rest \<and> k ''tar.gz'' rest = Some r"
    unfolding lit_Some_iff by blast
  then show ?thesis by blast
qed

subsection \<open>What ExtractPlatformFromFilename accepts\<close>

text \<open>The shape the pattern describes, stated on its own: the text
  \<open>golangci-lint-<ver>-<os>-<arch>.<ext>\<close> and the conditions on its four parts.\<close>

definition shape :: "string \<Rightarrow> string \<Rightarrow> string \<Rightarrow> string \<Rightarrow> string" where
  "shape ver os arch ext = ''golangci-lint-'' @ ver @ ''-'' @ os @ ''-'' @ arch @ ''.'' @ ext"

definition shape_ok :: "string \<Rightarrow> string \<Rightarrow> string \<Rightarrow> string \<Rightarrow> bool" where
  "shape_ok ver os arch ext =
     (ver \<noteq> [] \<and> list_all is_digit_or_dot ver \<and> os \<noteq> [] \<and> list_all is_word os \<and>
      arch \<noteq> [] \<and> list_all is_word arch \<and> (ext = ''tar.gz'' \<or> ext = ''zip''))"

lemma pattern_at_sound:
  assumes "pattern_at s = Some m"
  shows "\<exists>ver os arch ext post. s = shape ver os arch ext @ post \<and> shape_ok ver os arch ext \<and>
           m = [shape ver os arch ext, os, arch, ext]"
proof -
  from assms obtain s1 where s: "s = ''golangci-lint-'' @ s1"
    and 1: "plus_class is_digit_or_dot s1 (\<lambda>_ s2.
      lit ''-'' s2 (\<lambda>_ s3.
      plus_class is_word s3 (\<lambda>g1 s4.
      lit ''-'' s4 (\<lambda>_ s5.
      plus_class is_word s5 (\<lambda>g2 s6.
      lit ''.'' s6 (\<lambda>_ s7.
      alt (lit ''tar.gz'') (lit ''zip'') s7 (\<lambda>g3 s8.
      Some [take (length s - length s8) s, g1, g2, g3]))))))) = Some m"
    unfolding pattern_at_def lit_Some_iff by blast
  from plus_class_sound[OF 1] obtain ver s2 where s1: "s1 = ver @ s2" and ver: "ver \<noteq> []" "list_all is_digit_or_dot ver"
    and 2: "lit ''-'' s2 (\<lambda>_ s3.
      plus_class is_word s3 (\<lambda>g1 s4.
      lit ''-'' s4 (\<lambda>_ s5.
      plus_class is_word s5 (\<lambda>g2 s6.
      lit ''.'' s6 (\<lambda>_ s7.
      alt (lit ''tar.gz'') (lit ''zip'') s7 (\<lambda>g3 s8.
      Some [take (length s - length s8) s, g1, g2, g3])))))) = Some m" by blast
  from 2 obtain s3 where s2: "s2 = ''-'' @ s3"
    and 3: "plus_class is_word s3 (\<lambda>g1 s4.
      lit ''-'' s4 (\<lambda>_ s5.
      plus_class is_word s5 (\<lambda>g2 s6.
      lit ''.'' s6 (\<lambda>_ s7.
      alt (lit ''tar.gz'') (lit ''zip'') s7 (\<lambda>g3 s8.
      Some [take (length s - length s8) s, g1, g2, g3]))))) = Some m"
    unfolding lit_Some_iff by blast
  from plus_class_sound[OF 3] obtain os s4 where s3: "s3 = os @ s4" and os: "os \<noteq> []" "list_all is_word os"
    and 4: "lit ''-'' s4 (\<lambda>_ s5.
      plus_class is_word s5 (\<lambda>g2 s6.
      lit ''.'' s6 (\<lambda>_ s7.
      alt (lit ''tar.gz'') (lit ''zip'') s7 (\<lambda>g3 s8.
      Some [take (length s - length s8) s, os, g2, g3])))) = Some m" by blast
  from 4 obtain s5 where s4: "s4 = ''-'' @ s5"
    and 5: "plus_class is_word s5 (\<lambda>g2 s6.
      lit ''.'' s6 (\<lambda>_ s7.
      alt (lit ''tar.gz'') (lit ''zip'') s7 (\<lambda>g3 s8.
      Some [take (length s - length s8) s, os, g2, g3]))) = Some m"
    unfolding lit_Some_iff by blast
  from plus_class_sound[OF 5] obtain arch s6 where s5: "s5 = arch @ s6" and arch: "arch \<noteq> []" "list_all is_word arch"
    and 6: "lit ''.'' s6 (\<lambda>_ s7.
      alt (lit ''tar.gz'') (lit ''zip'') s7 (\<lambda>g3 s8.
      Some [take (length s - length s8) s, os, arch, g3])) = Some m" by blast
  from 6 obtain s7 where s6: "s6 = ''.'' @ s7"
    and 7: "alt (lit ''tar.gz'') (lit ''zip'') s7 (\<lambda>g3 s8.
      Some [take (length s - length s8) s, os, arch, g3]) = Some m"
    unfolding lit_Some_iff by blast
  from alt_ext_Some[OF 7] obtain ext s8 where s7: "s7 = ext @ s8" and ext: "ext = ''tar.gz'' \<or> ext = ''zip''"
    and m: "m = [take (length s - length s8) s, os, arch, ext]" by auto
  have whole: "s = shape ver os arch ext @ s8"
    by (simp add: shape_def s s1 s2 s3 s4 s5 s6 s7)
  then have "take (length s - length s8) s = shape ver os arch ext" by simp
  with m whole ver os arch ext show ?thesis unfolding shape_ok_def by blast
qed

lemma not_digit_or_dot_minus: "\<not> is_digit_or_dot (CHR ''-'')"
  by (simp add: is_digit_or_dot_def is_digit_def)

lemma not_word_minus: "\<not> is_word (CHR ''-'')"
  by (simp add: is_word_def is_digit_def)

lemma not_word_dot: "\<not> is_word (CHR ''.'')"
  by (simp add: is_word_def is_digit_def)

lemma alt_ext_append:
  "ext = ''tar.gz'' \<or> ext = ''zip'' \<Longrightarrow> alt (lit ''tar.gz'') (lit ''zip'') (ext @ post) k = k ext post"
  by (auto simp: alt_def lit_def split: option.splits)

lemma pattern_at_shape:
  assumes "shape_ok ver os arch ext"
  shows "pattern_at (shape ver os arch ext @ post) = Some [shape ver os arch ext, os, arch, ext]"
proof -
  let ?s = "shape ver os arch ext @ post"
  from assms have ver: "ver \<noteq> []" "list_all is_digit_or_dot ver"
    and os: "os \<noteq> []" "list_all is_word os"
    and arch: "arch \<noteq> []" "list_all is_word arch"
    and ext: "ext = ''tar.gz'' \<or> ext = ''zip''" by (simp_all add: shape_ok_def)
  have a: "?s = ''golangci-lint-'' @ (ver @ (''-'' @ (os @ (''-'' @ (arch @ (''.'' @ (ext @ post)))))))"
    by (simp add: shape_def)
  have len: "take (length ?s - length post) ?s = shape ver os arch ext" by simp
  have k1: "\<And>k' a r. r \<noteq> [] \<Longrightarrow> is_digit_or_dot (hd r) \<Longrightarrow> lit ''-'' r k' = None"
    using lit_char_None not_digit_or_dot_minus by metis
  have k2: "\<And>k' a r. r \<noteq> [] \<Longrightarrow> is_word (hd r) \<Longrightarrow> lit ''-'' r k' = None"
    using lit_char_None not_word_minus by metis
  have k3: "\<And>k' a r. r \<noteq> [] \<Longrightarrow> is_word (hd r) \<Longrightarrow> lit ''.'' r k' = None"
    using lit_char_None not_word_dot by metis
  have "pattern_at ?s =
    plus_class is_digit_or_dot (ver @ (''-'' @ (os @ (''-'' @ (arch @ (''.'' @ (ext @ post))))))) (\<lambda>_ s2.
    lit ''-'' s2 (\<lambda>_ s3.
    plus_class is_word s3 (\<lambda>g1 s4.
    lit ''-'' s4 (\<lambda>_ s5.
    plus_class is_word s5 (\<lambda>g2 s6.
    lit ''.'' s6 (\<lambda>_ s7.
    alt (lit ''tar.gz'') (lit ''zip'') s7 (\<lambda>g3 s8.
    Some [take (length ?s - length s8) ?s, g1, g2, g3])))))))"
    unfolding pattern_at_def by (subst (1) a, subst lit_append) (rule refl)
  also have "\<dots> = 
    lit ''-'' (''-'' @ (os @ (''-'' @ (arch @ (''.'' @ (ext @ post)))))) (\<lambda>_ s3.
    plus_class is_word s3 (\<lambda>g1 s4.
    lit ''-'' s4 (\<lambda>_ s5.
    plus_class is_word s5 (\<lambda>g2 s6.
    lit ''.'' s6 (\<lambda>_ s7.
    alt (lit ''tar.gz'') (lit ''zip'') s7 (\<lambda>g3 s8.
    Some [take (length ?s - length s8) ?s, g1, g2, g3]))))))"
    by (rule plus_class_maximal[OF ver]) (simp_all add: not_digit_or_dot_minus k1)
  also have "\<dots> =
    plus_class is_word (os @ (''-'' @ (arch @ (''.'' @ (ext @ post))))) (\<lambda>g1 s4.
    lit ''-'' s4 (\<lambda>_ s5.
    plus_class is_word s5 (\<lambda>g2 s6.
    lit ''.'' s6 (\<lambda>_ s7.
    alt (lit ''tar.gz'') (lit ''zip'') s7 (\<lambda>g3 s8.
    Some [take (length ?s - length s8) ?s, g1, g2, g3])))))"
    by (rule lit_append)
  also have "\<dots> =
    lit ''-'' (''-'' @ (arch @ (''.'' @ (ext @ post)))) (\<lambda>_ s5.
    plus_class is_word s5 (\<lambda>g2 s6.
    lit ''.'' s6 (\<lambda>_ s7.
    alt (lit ''tar.gz'') (lit ''zip'') s7 (\<lambda>g3 s8.
    Some [take (length ?s - length s8) ?s, os, g2, g3]))))"
    by (rule plus_class_maximal[OF os]) (simp_all add: not_word_minus k2)
  also have "\<dots> =
    plus_class is_word (arch @ (''.'' @ (ext @ post))) (\<lambda>g2 s6.
    lit ''.'' s6 (\<lambda>_ s7.
    alt (lit ''tar.gz'') (lit ''zip'') s7 (\<lambda>g3 s8.
    Some [take (length ?s - length s8) ?s, os, g2, g3])))"
    by (rule lit_append)
  also have "\<dots> =
    lit ''.'' (''.'' @ (ext @ post)) (\<lambda>_ s7.
    alt (lit ''tar.gz'') (lit ''zip'') s7 (\<lambda>g3 s8.
    Some [take (length ?s - length s8) ?s, os, arch, g3]))"
    by (rule plus_class_maximal[OF arch]) (simp_all add: not_word_dot k3)
  also have "\<dots> =
    alt (lit ''tar.gz'') (lit ''zip'') (ext @ post) (\<lambda>g3 s8.
    Some [take (length ?s - length s8) ?s, os, arch, g3])"
    by (rule lit_append)
  also have "\<dots> = Some [take (length ?s - length post) ?s, os, arch, ext]"
    by (rule alt_ext_append[OF ext])
  finally show ?thesis using len by simp
qed

lemma pattern_at_length: "pattern_at s = Some m \<Longrightarrow> length m = 4"
  using pattern_at_sound[of s m] by auto

lemma FindStringSubmatch_cases:
  "FindStringSubmatch s = [] \<or> (\<exists>pre x. s = pre @ x \<and> pattern_at x = Some (FindStringSubmatch s))"
proof (induction s)
  case Nil
  show ?case by (cases "pattern_at []") auto
next
  case (Cons c cs)
  show ?case
  proof (cases "pattern_at (c # cs)")
    case None
    with Cons show ?thesis
    proof (elim disjE exE conjE)
      fix pre x assume "cs = pre @ x" "pattern_at x = Some (FindStringSubmatch cs)"
      with None have "c # cs = (c # pre) @ x \<and> pattern_at x = Some (FindStringSubmatch (c # cs))"
        by simp
      then show ?thesis by blast
    qed simp
  next
    case (Some m)
    then have "c # cs = [] @ (c # cs) \<and> pattern_at (c # cs) = Some (FindStringSubmatch (c # cs))"
      by simp
    then show ?thesis by blast
  qed
qed

lemma FindStringSubmatch_here: "pattern_at s = Some m \<Longrightarrow> FindStringSubmatch s = m"
  by (cases s) simp_all

lemma FindStringSubmatch_found:
  "pattern_at x = Some m \<Longrightarrow> length (FindStringSubmatch (pre @ x)) = 4"
proof (induction pre)
  case Nil
  then show ?case by (simp add: FindStringSubmatch_here pattern_at_length)
next
  case (Cons c pre)
  show ?case
  proof (cases "pattern_at (c # pre @ x)")
    case None
    with Cons show ?thesis by simp
  next
    case (Some m')
    then show ?thesis by (simp add: pattern_at_length)
  qed
qed

text \<open>A filename contains the shape when some part of it, at any position, has it.\<close>

definition contains_shape :: "string \<Rightarrow> bool" where
  "contains_shape filename =
     (\<exists>pre ver os arch ext post.
        filename = pre @ shape ver os arch ext @ post \<and> shape_ok ver os arch ext)"

lemma Extract_succeeds_iff:
  "(\<exists>p. ExtractPlatformFromFilename f = Inr p) \<longleftrightarrow> contains_shape f"
proof
  assume "\<exists>p. ExtractPlatformFromFilename f = Inr p"
  then have "length (FindStringSubmatch f) = 4"
    by (auto simp: ExtractPlatformFromFilename_def Let_def split: if_splits)
  with FindStringSubmatch_cases[of f] obtain pre x where
    f: "f = pre @ x" and "pattern_at x = Some (FindStringSubmatch f)" by auto
  from pattern_at_sound[OF this(2)] f show "contains_shape f"
    unfolding contains_shape_def by blast
next
  assume "contains_shape f"
  then obtain pre ver os arch ext post where
    f: "f = pre @ shape ver os arch ext @ post" and ok: "shape_ok ver os arch ext"
    unfolding contains_shape_def by blast
  from FindStringSubmatch_found[OF pattern_at_shape[OF ok], of pre post] f
  show "\<exists>p. ExtractPlatformFromFilename f = Inr p"
    by (simp add: ExtractPlatformFromFilename_def Let_def)
qed

lemma Extract_shape:
  assumes "shape_ok ver os arch ext"
  shows "ExtractPlatformFromFilename (shape ver os arch ext @ post) = Inr \<lparr>OS = os, Arch = arch\<rparr>"
  using FindStringSubmatch_here[OF pattern_at_shape[OF assms, of post]]
  by (simp add: ExtractPlatformFromFilename_def)

lemma Extract_fails_iff:
  "ExtractPlatformFromFilename f = Inl (Errorf (''filename does not match expected pattern: '' @ f)) \<longleftrightarrow> \<not> contains_shape f"
  using Extract_succeeds_iff[of f] by (auto simp: ExtractPlatformFromFilename_def Let_def)

text \<open>
  Claim C5, as the code has it.  \<open>ExtractPlatformFromFilename\<close> succeeds exactly when
  the filename contains, at any position, a piece of the shape
  \<open>golangci-lint-<ver>-<os>-<arch>.<ext>\<close>, where \<open>ver\<close> is one or more digits or dots,
  \<open>os\<close> and \<open>arch\<close> are one or more word characters each and \<open>ext\<close> is \<open>tar.gz\<close> or
  \<open>zip\<close>; text before and after that piece is allowed.  A filename that contains no such
  piece fails with the extraction error, and a filename that starts with such a piece
  yields its \<open>os\<close> and \<open>arch\<close>.
\<close>

theorem ExtractPlatformFromFilename_accepts:
  "((\<exists>p. ExtractPlatformFromFilename f = Inr p) \<longleftrightarrow> contains_shape f) \<and>
   (\<not> contains_shape f \<longrightarrow>
      ExtractPlatformFromFilename f =
        Inl (Errorf (''filename does not match expected pattern: '' @ f))) \<and>
   (shape_ok ver os arch ext \<longrightarrow>
      ExtractPlatformFromFilename (shape ver os arch ext @ post) = Inr \<lparr>OS = os, Arch = arch\<rparr>)"
  using Extract_succeeds_iff[of f] Extract_fails_iff[of f] Extract_shape[of ver os arch ext post]
  by blast

theorem ExtractPlatformFromFilename_accepts_witness:
  "shape_ok ''2.6.1'' ''linux'' ''amd64'' ''tar.gz'' \<and>
   ExtractPlatformFromFilename ''golangci-lint-2.6.1-linux-amd64.tar.gz'' =
     Inr \<lparr>OS = ''linux'', Arch = ''amd64''\<rparr> \<and>
   \<not> contains_shape ''golangci-lint-2.6.1-source.tar.gz'' \<and>
   ExtractPlatformFromFilename ''golangci-lint-2.6.1-source.tar.gz'' =
     Inl (Errorf ''filename does not match expected pattern: golangci-lint-2.6.1-source.tar.gz'')"
proof -
  have ok: "shape_ok ''2.6.1'' ''linux'' ''amd64'' ''tar.gz''"
    by (simp add: shape_ok_def is_digit_or_dot_def is_digit_def is_word_def)
  have sh: "shape ''2.6.1'' ''linux'' ''amd64'' ''tar.gz'' @ [] =
      ''golangci-lint-2.6.1-linux-amd64.tar.gz''"
    by (simp add: shape_def)
  have bad: "\<not> (\<exists>p. ExtractPlatformFromFilename ''golangci-lint-2.6.1-source.tar.gz'' = Inr p)"
    by (simp add: ExtractPlatformFromFilename_def pattern_at_def lit_def plus_class_def alt_def
        is_word_def is_digit_or_dot_def is_digit_def)
  from ok sh bad
    ExtractPlatformFromFilename_accepts
      [of "''golangci-lint-2.6.1-source.tar.gz''" "''2.6.1''" "''linux''" "''amd64''" "''tar.gz''" "[]"]
  show ?thesis by simp
qed

text \<open>
  Claim C5 as stated fails: the pattern is not anchored.  This filename does not start
  with the tool name and does not end in \<open>.tar.gz\<close> or \<open>.zip\<close>, and extraction succeeds.
\<close>

theorem ExtractPlatformFromFilename_unanchored:
  "ExtractPlatformFromFilename ''xgolangci-lint-2.6.1-linux-amd64.zipx'' =
     Inr \<lparr>OS = ''linux'', Arch = ''amd64''\<rparr> \<and>
   \<not> prefix ''golangci-lint-'' ''xgolangci-lint-2.6.1-linux-amd64.zipx'' \<and>
   \<not> suffix ''.tar.gz'' ''xgolangci-lint-2.6.1-linux-amd64.zipx'' \<and>
   \<not> suffix ''.zip'' ''xgolangci-lint-2.6.1-linux-amd64.zipx''"
  by (simp add: ExtractPlatformFromFilename_def pattern_at_def lit_def plus_class_def alt_def
      is_word_def is_digit_or_dot_def is_digit_def suffix_def)


subsection \<open>strings.TrimSpace, strings.Fields, strings.HasSuffix\<close>

text \<open>
  White space as \<open>unicode.IsSpace\<close> has it, each rune in its UTF-8 encoding: the six
  ASCII characters tab, line feed, vertical tab, form feed, carriage return and space,
  then U+0085, U+00A0, U+1680, U+2000 to U+200A, U+2028, U+2029, U+202F, U+205F and
  U+3000.  A rune of the input is white space exactly when the bytes at its position
  start with one of these encodings: the first byte of each is never a continuation
  byte, so no encoding starts inside another rune.
\<close>

definition space_runes :: "string list" where
  "space_runes =
    [[CHR 0x09], [CHR 0x0A], [CHR 0x0B], [CHR 0x0C], [CHR 0x0D], [CHR 0x20],
     [CHR 0xC2, CHR 0x85], [CHR 0xC2, CHR 0xA0],
     [CHR 0xE1, CHR 0x9A, CHR 0x80],
     [CHR 0xE2, CHR 0x80, CHR 0x80], [CHR 0xE2, CHR 0x80, CHR 0x81],
     [CHR 0xE2, CHR 0x80, CHR 0x82], [CHR 0xE2, CHR 0x80, CHR 0x83],
     [CHR 0xE2, CHR 0x80, CHR 0x84], [CHR 0xE2, CHR 0x80, CHR 0x85],
     [CHR 0xE2, CHR 0x80, CHR 0x86], [CHR 0xE2, CHR 0x80, CHR 0x87],
     [CHR 0xE2, CHR 0x80, CHR 0x88], [CHR 0xE2, CHR 0x80, CHR 0x89],
     [CHR 0xE2, CHR 0x80, CHR 0x8A],
     [CHR 0xE2, CHR 0x80, CHR 0xA8], [CHR 0xE2, CHR 0x80, CHR 0xA9],
     [CHR 0xE2, CHR 0x80, CHR 0xAF], [CHR 0xE2, CHR 0x81, CHR 0x9F],
     [CHR 0xE3, CHR 0x80, CHR 0x80]]"

text \<open>The number of bytes of the white-space rune \<open>s\<close> starts with, \<open>0\<close> when it starts
  with none; the same for the rune \<open>s\<close> ends with.\<close>

definition leading_space :: "string \<Rightarrow> nat" where
  "leading_space s = (case find (\<lambda>e. take (length e) s = e) space_runes of
                        Some e \<Rightarrow> length e
                      | None \<Rightarrow> 0)"

definition trailing_space :: "string \<Rightarrow> nat" where
  "trailing_space s = (case find (\<lambda>e. length e \<le> length s \<and> drop (length s - length e) s = e) space_runes of
                         Some e \<Rightarrow> length e
                       | None \<Rightarrow> 0)"

lemma leading_space_le: "leading_space s \<le> length s"
proof (cases "find (\<lambda>e. take (length e) s = e) space_runes")
  case None
  then show ?thesis by (simp add: leading_space_def)
next
  case (Some e)
  then have "take (length e) s = e" by (auto simp: find_Some_iff)
  then have "length (take (length e) s) = length e" by simp
  then have "length e \<le> length s" by simp
  with Some show ?thesis by (simp add: leading_space_def)
qed

lemma trailing_space_le: "trailing_space s \<le> length s"
  by (auto simp: trailing_space_def find_Some_iff split: option.splits)

function TrimLeft :: "string \<Rightarrow> string" where
  "TrimLeft s = (if leading_space s = 0 then s else TrimLeft (drop (leading_space s) s))"
  by pat_completeness auto
termination
proof (relation "measure length")
  fix s :: string
  assume "leading_space s \<noteq> 0"
  moreover have "leading_space s \<le> length s" by (rule leading_space_le)
  ultimately show "(drop (leading_space s) s, s) \<in> measure length" by simp
qed simp

function TrimRight :: "string \<Rightarrow> string" where
  "TrimRight s = (if trailing_space s = 0 then s else TrimRight (take (length s - trailing_space s) s))"
  by pat_completeness auto
termination
proof (relation "measure length")
  fix s :: string
  assume "trailing_space s \<noteq> 0"
  moreover have "trailing_space s \<le> length s" by (rule trailing_space_le)
  ultimately show "(take (length s - trailing_space s) s, s) \<in> measure length" by simp
qed simp

declare TrimLeft.simps [simp del] TrimRight.simps [simp del]

text \<open>\<open>strings.TrimSpace\<close>: all leading and all trailing white space removed.\<close>

definition TrimSpace :: "string \<Rightarrow> string" where
  "TrimSpace s = TrimRight (TrimLeft s)"

text \<open>\<open>strings.Fields\<close>: the maximal runs of bytes between white space; \<open>cur\<close> is the
  field being read.\<close>

function Fields_from :: "string \<Rightarrow> string \<Rightarrow> string list" where
  "Fields_from cur [] = (if cur = [] then [] else [cur])"
| "Fields_from cur (c # cs) =
    (if leading_space (c # cs) = 0
     then Fields_from (cur @ [c]) cs
     else (if cur = [] then [] else [cur]) @ Fields_from [] (drop (leading_space (c # cs)) (c # cs)))"
  by pat_completeness auto
termination
proof (relation "measure (\<lambda>(cur, s). length s)")
  fix cur :: string and c :: char and cs :: string
  assume "leading_space (c # cs) \<noteq> 0"
  then show "(([], drop (leading_space (c # cs)) (c # cs)), (cur, c # cs)) \<in> measure (\<lambda>(cur, s). length s)"
    by simp
qed simp_all

definition Fields :: "string \<Rightarrow> string list" where
  "Fields s = Fields_from [] s"

definition HasSuffix :: "string \<Rightarrow> string \<Rightarrow> bool" where
  "HasSuffix s suf = (length suf \<le> length s \<and> drop (length s - length suf) s = suf)"

subsection \<open>bufio.Scanner with bufio.ScanLines\<close>

text \<open>
  The raw lines of the input: the bytes between line feeds, the line feed left out.
  Bytes after the last line feed form a last line when there are any; \<open>cur\<close> holds the
  bytes of the line being read.
\<close>

fun raw_lines :: "string \<Rightarrow> string \<Rightarrow> string list" where
  "raw_lines cur [] = (if cur = [] then [] else [cur])"
| "raw_lines cur (c # cs) =
    (if c = CHR 0x0A then cur # raw_lines [] cs else raw_lines (cur @ [c]) cs)"

text \<open>\<open>dropCR\<close> of bufio: a trailing carriage return is dropped from the token.\<close>

definition dropCR :: "string \<Rightarrow> string" where
  "dropCR data = (if data \<noteq> [] \<and> last data = CHR 0x0D then butlast data else data)"

text \<open>
  \<open>bufio.MaxScanTokenSize\<close>, the size the scanner's buffer grows to at most.  The
  scanner reports \<open>bufio.ErrTooLong\<close> when the buffer is full and holds no line feed,
  that is at a raw line of this many bytes or more, and stops there.
\<close>

definition MaxScanTokenSize :: nat where
  "MaxScanTokenSize = 64 * 1024"

definition ErrTooLong :: error where
  "ErrTooLong = Errorf ''bufio.Scanner: token too long''"

subsection \<open>ParseChecksumFile\<close>

text \<open>The three warnings \<open>ParseChecksumFile\<close> writes to the log, by their arguments.\<close>

datatype warning =
    MalformedLine string
  | InvalidSHA256 string
  | SkippingFile string error

text \<open>What the loop holds: the map \<open>checksums\<close> and the warnings logged so far, in order.\<close>

record parse_state =
  st_checksums :: "(Platform \<times> string) list"
  st_warnings :: "warning list"

text \<open>The body of the loop for one token of the scanner.\<close>

definition process_line :: "string \<Rightarrow> parse_state \<Rightarrow> parse_state" where
  "process_line text st =
    (let line = TrimSpace text in
     if line = [] then st
     else
       let parts = Fields line in
       if length parts < 2 then st\<lparr>st_warnings := st_warnings st @ [MalformedLine line]\<rparr>
       else
         let hash = parts ! 0;
             filename = parts ! (length parts - 1)
         in
         if \<not> isValidSHA256 hash then st\<lparr>st_warnings := st_warnings st @ [InvalidSHA256 line]\<rparr>
         else if \<not> HasSuffix filename ''.tar.gz'' \<and> \<not> HasSuffix filename ''.zip'' then st
         else
           (case ExtractPlatformFromFilename filename of
              Inl err \<Rightarrow> st\<lparr>st_warnings := st_warnings st @ [SkippingFile filename err]\<rparr>
            | Inr platform \<Rightarrow>
                st\<lparr>st_checksums := AList.update platform hash (st_checksums st)\<rparr>))"

text \<open>\<open>for scanner.Scan() { ... }\<close>: the raw lines in order, until one does not fit the
  buffer; the second component is \<open>scanner.Err()\<close>.\<close>

fun scan_loop :: "string list \<Rightarrow> parse_state \<Rightarrow> parse_state \<times> error option" where
  "scan_loop [] st = (st, None)"
| "scan_loop (raw # rest) st =
    (if MaxScanTokenSize \<le> length raw then (st, Some ErrTooLong)
     else scan_loop rest (process_line (dropCR raw) st))"

text \<open>The function with its log: the warnings written, and the value returned.\<close>

definition ParseChecksumFile_run :: "string \<Rightarrow> warning list \<times> (error + (Platform \<times> string) list)" where
  "ParseChecksumFile_run content =
    (case scan_loop (raw_lines [] content) \<lparr>st_checksums = [], st_warnings = []\<rparr> of
       (st, Some err) \<Rightarrow> (st_warnings st, Inl (Wrapf ''error reading checksum file'' err))
     | (st, None) \<Rightarrow> (st_warnings st, Inr (st_checksums st)))"

definition ParseChecksumFile :: "string \<Rightarrow> error + (Platform \<times> string) list" where
  "ParseChecksumFile content = snd (ParseChecksumFile_run content)"

definition ParseChecksumFile_log :: "string \<Rightarrow> warning list" where
  "ParseChecksumFile_log content = fst (ParseChecksumFile_run content)"

subsection \<open>The manifest line by line\<close>

text \<open>The lines the scanner hands to the loop when none is too long.\<close>

definition manifest_lines :: "string \<Rightarrow> string list" where
  "manifest_lines content = map dropCR (raw_lines [] content)"

text \<open>The three filters of the specification, on one line: at least two
  white-space-separated tokens, a valid hash as the first token, and a last token that
  ends in \<open>.tar.gz\<close> or \<open>.zip\<close>.\<close>

definition passes_filters :: "string \<Rightarrow> bool" where
  "passes_filters line =
    (let parts = Fields (TrimSpace line) in
     2 \<le> length parts \<and> isValidSHA256 (hd parts) \<and>
     (HasSuffix (last parts) ''.tar.gz'' \<or> HasSuffix (last parts) ''.zip''))"

definition extraction_fails :: "string \<Rightarrow> bool" where
  "extraction_fails line =
    (case ExtractPlatformFromFilename (last (Fields (TrimSpace line))) of
       Inl err \<Rightarrow> True
     | Inr platform \<Rightarrow> False)"

text \<open>The entry a line contributes: its platform and its first token, when it passes
  the filters and its filename extracts.\<close>

definition line_entry :: "string \<Rightarrow> (Platform \<times> string) option" where
  "line_entry line =
    (if passes_filters line
     then (case ExtractPlatformFromFilename (last (Fields (TrimSpace line))) of
             Inl err \<Rightarrow> None
           | Inr platform \<Rightarrow> Some (platform, hd (Fields (TrimSpace line))))
     else None)"

text \<open>The warnings a line causes, whatever the other lines are.\<close>

definition line_warnings :: "string \<Rightarrow> warning list" where
  "line_warnings text =
    (let line = TrimSpace text; parts = Fields line in
     if line = [] then []
     else if length parts < 2 then [MalformedLine line]
     else if \<not> isValidSHA256 (hd parts) then [InvalidSHA256 line]
     else if \<not> HasSuffix (last parts) ''.tar.gz'' \<and> \<not> HasSuffix (last parts) ''.zip'' then []
     else (case ExtractPlatformFromFilename (last parts) of
             Inl err \<Rightarrow> [SkippingFile (last parts) err]
           | Inr platform \<Rightarrow> []))"

definition accepted_entries :: "string \<Rightarrow> (Platform \<times> string) list" where
  "accepted_entries content = List.map_filter line_entry (manifest_lines content)"

definition add_entry :: "(Platform \<times> string) option \<Rightarrow> (Platform \<times> string) list \<Rightarrow> (Platform \<times> string) list" where
  "add_entry e al = (case e of None \<Rightarrow> al | Some (p, h) \<Rightarrow> AList.update p h al)"

lemma Fields_Nil: "Fields [] = []"
  by (simp add: Fields_def)

lemma last_parts: "2 \<le> length parts \<Longrightarrow> parts ! (length parts - 1) = last parts"
  by (cases parts rule: rev_cases) simp_all

lemma hd_parts: "2 \<le> length parts \<Longrightarrow> parts ! 0 = hd parts"
  by (cases parts) simp_all

lemma process_line_eq:
  "process_line text st =
     st\<lparr>st_checksums := add_entry (line_entry text) (st_checksums st),
        st_warnings := st_warnings st @ line_warnings text\<rparr>"
proof (cases "TrimSpace text = []")
  case True
  then show ?thesis
    by (simp add: process_line_def line_entry_def passes_filters_def line_warnings_def
        add_entry_def Fields_Nil)
next
  case False
  show ?thesis
  proof (cases "2 \<le> length (Fields (TrimSpace text))")
    case short: False
    with False show ?thesis
      by (simp add: process_line_def line_entry_def passes_filters_def line_warnings_def
          add_entry_def Let_def)
  next
    case True
    note lp = last_parts[OF True] hd_parts[OF True]
    show ?thesis
    proof (cases "ExtractPlatformFromFilename (last (Fields (TrimSpace text)))")
      case (Inl err)
      with False True lp show ?thesis
        by (simp add: process_line_def line_entry_def passes_filters_def line_warnings_def
            add_entry_def Let_def)
    next
      case (Inr platform)
      with False True lp show ?thesis
        by (simp add: process_line_def line_entry_def passes_filters_def line_warnings_def
            add_entry_def Let_def)
    qed
  qed
qed

lemma line_entry_warnings: "line_entry text = Some e \<Longrightarrow> line_warnings text = []"
  by (auto simp: line_entry_def passes_filters_def line_warnings_def Let_def Fields_Nil
      split: if_splits sum.splits)

text \<open>The loop on lines that all fit the buffer.\<close>

definition fits :: "string \<Rightarrow> bool" where
  "fits content = (\<forall>raw \<in> set (raw_lines [] content). length raw < MaxScanTokenSize)"

lemma scan_loop_short:
  "\<forall>raw \<in> set raws. length raw < MaxScanTokenSize \<Longrightarrow>
   scan_loop raws st =
     (st\<lparr>st_checksums := fold add_entry (map (line_entry \<circ> dropCR) raws) (st_checksums st),
         st_warnings := st_warnings st @ concat (map (line_warnings \<circ> dropCR) raws)\<rparr>, None)"
proof (induction raws arbitrary: st)
  case Nil
  then show ?case by simp
next
  case (Cons raw rest)
  then have "\<not> MaxScanTokenSize \<le> length raw" and r: "\<forall>raw \<in> set rest. length raw < MaxScanTokenSize"
    by auto
  then show ?case using Cons.IH[OF r] by (simp add: process_line_eq)
qed

lemma scan_loop_long:
  "\<exists>raw \<in> set raws. MaxScanTokenSize \<le> length raw \<Longrightarrow> snd (scan_loop raws st) = Some ErrTooLong"
proof (induction raws arbitrary: st)
  case Nil
  then show ?case by simp
next
  case (Cons raw rest)
  then show ?case by (cases "MaxScanTokenSize \<le> length raw") auto
qed

lemma ParseChecksumFile_fits:
  assumes "fits content"
  shows "ParseChecksumFile_run content =
     (concat (map line_warnings (manifest_lines content)),
      Inr (fold add_entry (map line_entry (manifest_lines content)) []))"
  using scan_loop_short[of "raw_lines [] content" "\<lparr>st_checksums = [], st_warnings = []\<rparr>"] assms
  by (simp add: ParseChecksumFile_run_def fits_def manifest_lines_def)

lemma ParseChecksumFile_too_long:
  assumes "\<not> fits content"
  shows "ParseChecksumFile content = Inl (Wrapf ''error reading checksum file'' ErrTooLong)"
proof -
  from assms have "\<exists>raw \<in> set (raw_lines [] content). MaxScanTokenSize \<le> length raw"
    by (auto simp: fits_def not_less)
  from scan_loop_long[OF this, of "\<lparr>st_checksums = [], st_warnings = []\<rparr>"]
  show ?thesis
    by (cases "scan_loop (raw_lines [] content) \<lparr>st_checksums = [], st_warnings = []\<rparr>")
       (simp add: ParseChecksumFile_def ParseChecksumFile_run_def)
qed

lemma ParseChecksumFile_Inr_iff: "(\<exists>m. ParseChecksumFile content = Inr m) \<longleftrightarrow> fits content"
  using ParseChecksumFile_fits[of content] ParseChecksumFile_too_long[of content]
  by (cases "fits content") (auto simp: ParseChecksumFile_def)

lemma ParseChecksumFile_Inr:
  assumes "ParseChecksumFile content = Inr m"
  shows "m = fold add_entry (map line_entry (manifest_lines content)) []"
    and "ParseChecksumFile_log content = concat (map line_warnings (manifest_lines content))"
proof -
  from assms have "fits content" using ParseChecksumFile_Inr_iff by blast
  from ParseChecksumFile_fits[OF this] assms
  show "m = fold add_entry (map line_entry (manifest_lines content)) []"
    and "ParseChecksumFile_log content = concat (map line_warnings (manifest_lines content))"
    by (simp_all add: ParseChecksumFile_def ParseChecksumFile_log_def)
qed

subsection \<open>The map the loop builds\<close>


lemma distinct_add_entry: "distinct (map fst al) \<Longrightarrow> distinct (map fst (add_entry e al))"
  by (auto simp: add_entry_def distinct_update split: option.splits)

lemma keys_add_entry:
  "fst ` set (add_entry e al) = (case e of None \<Rightarrow> {} | Some (p, h) \<Rightarrow> {p}) \<union> fst ` set al"
  by (auto simp: add_entry_def dom_update split: option.splits)

lemma distinct_fold_add_entry:
  "distinct (map fst al) \<Longrightarrow> distinct (map fst (fold add_entry es al))"
  by (induction es arbitrary: al) (simp_all add: distinct_add_entry)

lemma keys_fold_add_entry:
  "fst ` set (fold add_entry es al) = fst ` set (List.map_filter id es) \<union> fst ` set al"
proof (induction es arbitrary: al)
  case Nil
  then show ?case by (simp add: List.map_filter_simps)
next
  case (Cons e es)
  show ?case
  proof (cases e)
    case None
    then show ?thesis using Cons[of al] by (simp add: add_entry_def List.map_filter_simps)
  next
    case (Some ph)
    then show ?thesis using Cons[of "add_entry e al"]
      by (cases ph) (auto simp: keys_add_entry List.map_filter_simps)
  qed
qed

lemma map_filter_id_map: "List.map_filter id (map f xs) = List.map_filter f xs"
  by (induction xs) (simp_all add: List.map_filter_simps split: option.splits)


lemma set_update_subset: "set (AList.update k v al) \<subseteq> insert (k, v) (set al)"
  by (induct al) auto

lemma fold_add_entry_mem:
  "(p, h) \<in> set (fold add_entry es al) \<Longrightarrow> (p, h) \<in> set al \<or> Some (p, h) \<in> set es"
proof (induction es arbitrary: al)
  case Nil
  then show ?case by simp
next
  case (Cons e es)
  from Cons.IH[OF Cons.prems[simplified]] show ?case
  proof
    assume "(p, h) \<in> set (add_entry e al)"
    then show ?thesis
    proof (cases e)
      case None
      with \<open>(p, h) \<in> set (add_entry e al)\<close> show ?thesis by (simp add: add_entry_def)
    next
      case (Some ab)
      obtain a b where ab: "ab = (a, b)" by (cases ab)
      with Some \<open>(p, h) \<in> set (add_entry e al)\<close> have "(p, h) \<in> set (AList.update a b al)"
        by (simp add: add_entry_def)
      with set_update_subset[of a b al] have "(p, h) = (a, b) \<or> (p, h) \<in> set al" by auto
      with Some ab show ?thesis by auto
    qed
  qed simp
qed

subsection \<open>Lines of printable ASCII\<close>

text \<open>The printable ASCII characters other than the space.\<close>

definition plain :: "char \<Rightarrow> bool" where
  "plain c = (CHR ''!'' \<le> c \<and> c \<le> CHR ''~'')"

lemma space_runes_not_plain: "e \<in> set space_runes \<Longrightarrow> e \<noteq> [] \<and> \<not> plain (hd e) \<and> \<not> plain (last e)"
  by (auto simp: space_runes_def plain_def less_eq_char_def)

lemma leading_space_plain: "plain c \<Longrightarrow> leading_space (c # cs) = 0"
proof -
  assume p: "plain c"
  have "find (\<lambda>e. take (length e) (c # cs) = e) space_runes = None"
  proof (rule ccontr)
    assume "find (\<lambda>e. take (length e) (c # cs) = e) space_runes \<noteq> None"
    then obtain e where e: "e \<in> set space_runes" "take (length e) (c # cs) = e"
      by (auto simp: find_None_iff)
    from space_runes_not_plain[OF e(1)] obtain x xs where x: "e = x # xs" "\<not> plain x"
      by (cases e) auto
    with e(2) have "x = c" by simp
    with x p show False by simp
  qed
  then show ?thesis by (simp add: leading_space_def)
qed

lemma trailing_space_plain: "s \<noteq> [] \<Longrightarrow> plain (last s) \<Longrightarrow> trailing_space s = 0"
proof -
  assume s: "s \<noteq> []" and p: "plain (last s)"
  have "find (\<lambda>e. length e \<le> length s \<and> drop (length s - length e) s = e) space_runes = None"
  proof (rule ccontr)
    assume "find (\<lambda>e. length e \<le> length s \<and> drop (length s - length e) s = e) space_runes \<noteq> None"
    then obtain e where e: "e \<in> set space_runes" "length e \<le> length s"
      "drop (length s - length e) s = e"
      by (auto simp: find_None_iff)
    from space_runes_not_plain[OF e(1)] have ne: "e \<noteq> []" "\<not> plain (last e)" by simp_all
    from ne(1) s e(2) have "length s - length e < length s" by (cases e) auto
    then have "last (drop (length s - length e) s) = last s" by (rule last_drop)
    with e(3) ne(2) p show False by simp
  qed
  then show ?thesis by (simp add: trailing_space_def)
qed

lemma TrimSpace_plain: "plain c \<Longrightarrow> plain (last (c # cs)) \<Longrightarrow> TrimSpace (c # cs) = c # cs"
  by (simp add: TrimSpace_def TrimLeft.simps[of "c # cs"] TrimRight.simps[of "c # cs"]
      leading_space_plain trailing_space_plain)

lemma Fields_from_plain:
  "list_all plain w \<Longrightarrow> Fields_from cur (w @ rest) = Fields_from (cur @ w) rest"
  by (induction w arbitrary: cur) (simp_all add: leading_space_plain)

lemma leading_space_blank: "leading_space (CHR '' '' # cs) = 1"
  by (simp add: leading_space_def space_runes_def)

text \<open>A line as the manifests have it: a token, two spaces, a token.\<close>

definition manifest_line :: "string \<Rightarrow> string \<Rightarrow> string" where
  "manifest_line h f = h @ ''  '' @ f"

lemma Fields_manifest_line:
  assumes "list_all plain h" "h \<noteq> []" "list_all plain f" "f \<noteq> []"
  shows "Fields (manifest_line h f) = [h, f]"
proof -
  have "Fields (manifest_line h f) = Fields_from h (CHR '' '' # CHR '' '' # f @ [])"
    using Fields_from_plain[OF assms(1), of "[]" "''  '' @ f"]
    by (simp add: Fields_def manifest_line_def)
  also have "\<dots> = [h] @ Fields_from [] (f @ [])"
    using assms(2) by (simp add: leading_space_blank)
  also have "\<dots> = [h, f]"
    using Fields_from_plain[OF assms(3), of "[]" "[]"] assms(4) by simp
  finally show ?thesis .
qed

lemma TrimSpace_manifest_line:
  assumes "list_all plain h" "h \<noteq> []" "list_all plain f" "f \<noteq> []"
  shows "TrimSpace (manifest_line h f) = manifest_line h f"
proof -
  from assms(1,2) obtain c cs where h: "h = c # cs" "plain c" by (cases h) auto
  from assms(3,4) have "plain (last f)" by (simp add: list_all_iff)
  with assms(4) have "plain (last (c # cs @ ''  '' @ f))" by simp
  with h show ?thesis using TrimSpace_plain[of c "cs @ ''  '' @ f"] by (simp add: manifest_line_def)
qed

lemma line_entry_manifest_line:
  assumes "list_all plain h" "h \<noteq> []" "list_all plain f" "f \<noteq> []"
    and "isValidSHA256 h" "HasSuffix f ''.tar.gz'' \<or> HasSuffix f ''.zip''"
    and "ExtractPlatformFromFilename f = Inr p"
  shows "line_entry (manifest_line h f) = Some (p, h)"
    and "passes_filters (manifest_line h f)"
    and "\<not> extraction_fails (manifest_line h f)"
  using assms(5-7)
  by (simp_all add: line_entry_def passes_filters_def extraction_fails_def
      TrimSpace_manifest_line[OF assms(1-4)] Fields_manifest_line[OF assms(1-4)])

lemma plain_no_newline: "list_all plain l \<Longrightarrow> CHR 0x0A \<notin> set l \<and> CHR 0x0D \<notin> set l \<and> CHR '' '' \<notin> set l"
  by (auto simp: list_all_iff plain_def less_eq_char_def)

lemma raw_lines_line:
  "CHR 0x0A \<notin> set l \<Longrightarrow> raw_lines cur (l @ CHR 0x0A # rest) = (cur @ l) # raw_lines [] rest"
  by (induction l arbitrary: cur) auto

lemma raw_lines_last:
  "CHR 0x0A \<notin> set l \<Longrightarrow> raw_lines cur l = (if cur @ l = [] then [] else [cur @ l])"
  by (induction l arbitrary: cur) auto

lemma dropCR_plain: "l \<noteq> [] \<Longrightarrow> plain (last l) \<Longrightarrow> dropCR l = l"
  by (auto simp: dropCR_def plain_def less_eq_char_def)

lemma manifest_line_props:
  assumes "list_all plain h" "list_all plain f" "f \<noteq> []"
  shows "CHR 0x0A \<notin> set (manifest_line h f)" and "dropCR (manifest_line h f) = manifest_line h f"
proof -
  from plain_no_newline[OF assms(1)] plain_no_newline[OF assms(2)]
  show "CHR 0x0A \<notin> set (manifest_line h f)" by (simp add: manifest_line_def)
  from assms(2,3) have "plain (last f)" by (simp add: list_all_iff)
  with assms(3) have "plain (last (manifest_line h f))" by (simp add: manifest_line_def)
  then show "dropCR (manifest_line h f) = manifest_line h f"
    by (intro dropCR_plain) (simp_all add: manifest_line_def)
qed

text \<open>What makes \<open>manifest_line h f\<close> an accepted line for the platform \<open>p\<close>.\<close>

definition good_line :: "string \<Rightarrow> string \<Rightarrow> Platform \<Rightarrow> bool" where
  "good_line h f p =
    (list_all plain h \<and> h \<noteq> [] \<and> list_all plain f \<and> f \<noteq> [] \<and> isValidSHA256 h \<and>
     (HasSuffix f ''.tar.gz'' \<or> HasSuffix f ''.zip'') \<and> ExtractPlatformFromFilename f = Inr p)"

lemma good_line_entry:
  assumes "good_line h f p"
  shows "line_entry (manifest_line h f) = Some (p, h)"
    and "passes_filters (manifest_line h f)"
    and "\<not> extraction_fails (manifest_line h f)"
    and "CHR 0x0A \<notin> set (manifest_line h f)"
    and "dropCR (manifest_line h f) = manifest_line h f"
    and "manifest_line h f \<noteq> []"
    and "length (manifest_line h f) = length h + length f + 2"
  using assms line_entry_manifest_line[of h f p] manifest_line_props[of h f]
  by (simp_all add: good_line_def) (simp_all add: manifest_line_def)

text \<open>A manifest of two accepted lines, each ended by a line feed.\<close>

definition two_lines :: "string \<Rightarrow> string \<Rightarrow> string \<Rightarrow> string \<Rightarrow> string" where
  "two_lines h1 f1 h2 f2 =
     manifest_line h1 f1 @ [CHR 0x0A] @ manifest_line h2 f2 @ [CHR 0x0A]"

lemma two_lines_parse:
  assumes g1: "good_line h1 f1 p1" and g2: "good_line h2 f2 p2"
    and len: "length h1 + length f1 + 2 < MaxScanTokenSize" "length h2 + length f2 + 2 < MaxScanTokenSize"
  shows "manifest_lines (two_lines h1 f1 h2 f2) = [manifest_line h1 f1, manifest_line h2 f2]"
    and "fits (two_lines h1 f1 h2 f2)"
    and "ParseChecksumFile (two_lines h1 f1 h2 f2) = Inr (AList.update p2 h2 [(p1, h1)])"
    and "ParseChecksumFile_log (two_lines h1 f1 h2 f2) = []"
    and "accepted_entries (two_lines h1 f1 h2 f2) = [(p1, h1), (p2, h2)]"
proof -
  note e1 = good_line_entry[OF g1] and e2 = good_line_entry[OF g2]
  have raw: "raw_lines [] (two_lines h1 f1 h2 f2) = [manifest_line h1 f1, manifest_line h2 f2]"
    using raw_lines_line[OF e1(4), of "[]" "manifest_line h2 f2 @ [CHR 0x0A]"]
      raw_lines_line[OF e2(4), of "[]" "[]"]
    by (simp add: two_lines_def)
  then show ml: "manifest_lines (two_lines h1 f1 h2 f2) = [manifest_line h1 f1, manifest_line h2 f2]"
    by (simp add: manifest_lines_def e1(5) e2(5))
  show f: "fits (two_lines h1 f1 h2 f2)"
    using len by (simp add: fits_def raw e1(7) e2(7))
  have w: "line_warnings (manifest_line h1 f1) = []" "line_warnings (manifest_line h2 f2) = []"
    using e1(1) e2(1) by (simp_all add: line_entry_warnings)
  from ParseChecksumFile_fits[OF f]
  show "ParseChecksumFile (two_lines h1 f1 h2 f2) = Inr (AList.update p2 h2 [(p1, h1)])"
    and "ParseChecksumFile_log (two_lines h1 f1 h2 f2) = []"
    by (simp_all add: ParseChecksumFile_def ParseChecksumFile_log_def ml e1(1) e2(1) add_entry_def w)
  show "accepted_entries (two_lines h1 f1 h2 f2) = [(p1, h1), (p2, h2)]"
    by (simp add: accepted_entries_def ml List.map_filter_simps e1(1) e2(1))
qed

lemma isValidSHA256_length: "isValidSHA256 h \<Longrightarrow> length h = 64"
  by (simp add: isValidSHA256_def split: if_splits)

text \<open>The characters \<open>[0-9a-fA-F]\<close>.\<close>

definition is_hex :: "char \<Rightarrow> bool" where
  "is_hex c = ((CHR ''0'' \<le> c \<and> c \<le> CHR ''9'') \<or> (CHR ''a'' \<le> c \<and> c \<le> CHR ''f'') \<or>
               (CHR ''A'' \<le> c \<and> c \<le> CHR ''F''))"

lemma isValidSHA256_loop_hex: "isValidSHA256_loop h \<longleftrightarrow> list_all is_hex h"
  by (induction h) (auto simp: is_hex_def not_less)

lemma isValidSHA256_iff: "isValidSHA256 h \<longleftrightarrow> length h = 64 \<and> list_all is_hex h"
  by (simp add: isValidSHA256_def isValidSHA256_loop_hex)

subsection \<open>Sample manifest lines\<close>

lemma good_linux:
  "good_line ''ccc3333333333333333333333333333333333333333333333333333333333333''
     ''golangci-lint-2.6.1-linux-amd64.tar.gz'' \<lparr>OS = ''linux'', Arch = ''amd64''\<rparr>"
  by (simp add: good_line_def plain_def isValidSHA256_def HasSuffix_def
      ExtractPlatformFromFilename_def pattern_at_def lit_def plus_class_def alt_def
      is_word_def is_digit_or_dot_def is_digit_def)

lemma good_linux_upper:
  "good_line ''AEE6E16AF4DFA60DD3C4E39536EDC905F28369FDA3C138090DB00C8233CFE450''
     ''golangci-lint-2.6.1-linux-amd64.tar.gz'' \<lparr>OS = ''linux'', Arch = ''amd64''\<rparr>"
  by (simp add: good_line_def plain_def isValidSHA256_def HasSuffix_def
      ExtractPlatformFromFilename_def pattern_at_def lit_def plus_class_def alt_def
      is_word_def is_digit_or_dot_def is_digit_def)

lemma good_windows:
  "good_line ''eee5555555555555555555555555555555555555555555555555555555555555''
     ''golangci-lint-2.6.1-windows-amd64.zip'' \<lparr>OS = ''windows'', Arch = ''amd64''\<rparr>"
  by (simp add: good_line_def plain_def isValidSHA256_def HasSuffix_def
      ExtractPlatformFromFilename_def pattern_at_def lit_def plus_class_def alt_def
      is_word_def is_digit_or_dot_def is_digit_def)

section \<open>Properties of ParseChecksumFile\<close>

text \<open>The count of claim C3, in the words of the specification: the lines that pass
  the three filters, minus those of them whose filename does not extract.\<close>

definition passes_but_fails :: "string \<Rightarrow> bool" where
  "passes_but_fails line = (passes_filters line \<and> extraction_fails line)"

definition spec_entry_count :: "string \<Rightarrow> nat" where
  "spec_entry_count content =
     length (filter passes_filters (manifest_lines content)) -
     length (filter passes_but_fails (manifest_lines content))"

lemma length_map_filter_line_entry:
  "length (List.map_filter line_entry ls) =
     length (filter passes_filters ls) - length (filter passes_but_fails ls)"
proof (induction ls)
  case Nil
  then show ?case by (simp add: List.map_filter_simps)
next
  case (Cons l ls)
  have le: "length (filter passes_but_fails ls) \<le> length (filter passes_filters ls)"
    by (induction ls) (auto simp: passes_but_fails_def)
  show ?case
  proof (cases "line_entry l")
    case None
    then have "passes_filters l \<longrightarrow> passes_but_fails l"
      by (auto simp: line_entry_def passes_but_fails_def extraction_fails_def split: sum.splits)
    moreover have "passes_but_fails l \<longrightarrow> passes_filters l" by (simp add: passes_but_fails_def)
    ultimately show ?thesis using None Cons by (auto simp: List.map_filter_simps)
  next
    case (Some e)
    then have "passes_filters l" "\<not> passes_but_fails l"
      by (auto simp: line_entry_def passes_but_fails_def extraction_fails_def
          split: sum.splits if_splits)
    with Some Cons le show ?thesis by (simp add: List.map_filter_simps Suc_diff_le)
  qed
qed

lemma ParseChecksumFile_keys:
  assumes "ParseChecksumFile content = Inr m"
  shows "distinct (map fst m)" and "fst ` set m = fst ` set (accepted_entries content)"
proof -
  note m = ParseChecksumFile_Inr(1)[OF assms]
  show "distinct (map fst m)" unfolding m by (rule distinct_fold_add_entry) simp
  show "fst ` set m = fst ` set (accepted_entries content)"
    unfolding m by (simp add: keys_fold_add_entry map_filter_id_map accepted_entries_def)
qed

text \<open>
  Claim C3, as the code has it.  When \<open>ParseChecksumFile\<close> returns a mapping, its number
  of entries is the number of distinct platforms among the lines that pass the three
  filters and whose filename extracts.  The number of those lines is the count of the
  specification, and the two agree when no two of those lines name the same platform.
\<close>

theorem ParseChecksumFile_entry_count:
  assumes "ParseChecksumFile content = Inr m"
  shows "length m = card (fst ` set (accepted_entries content)) \<and>
         length (accepted_entries content) = spec_entry_count content \<and>
         length m \<le> spec_entry_count content \<and>
         (distinct (map fst (accepted_entries content)) \<longrightarrow> length m = spec_entry_count content)"
proof -
  note k = ParseChecksumFile_keys[OF assms]
  have 1: "length m = card (fst ` set (accepted_entries content))"
    using distinct_card[OF k(1)] k(2) by simp
  have 2: "length (accepted_entries content) = spec_entry_count content"
    by (simp add: accepted_entries_def spec_entry_count_def length_map_filter_line_entry)
  have "card (fst ` set (accepted_entries content)) \<le> length (accepted_entries content)"
    using card_length[of "map fst (accepted_entries content)"] by simp
  with 1 2 have 3: "length m \<le> spec_entry_count content" by simp
  have 4: "length m = spec_entry_count content" if "distinct (map fst (accepted_entries content))"
    using distinct_card[OF that] 1 2 by simp
  from 1 2 3 4 show ?thesis by blast
qed

theorem ParseChecksumFile_entry_count_witness:
  "ParseChecksumFile
     (two_lines ''ccc3333333333333333333333333333333333333333333333333333333333333''
        ''golangci-lint-2.6.1-linux-amd64.tar.gz''
        ''eee5555555555555555555555555555555555555555555555555555555555555''
        ''golangci-lint-2.6.1-windows-amd64.zip'') =
     Inr [(\<lparr>OS = ''linux'', Arch = ''amd64''\<rparr>,
           ''ccc3333333333333333333333333333333333333333333333333333333333333''),
          (\<lparr>OS = ''windows'', Arch = ''amd64''\<rparr>,
           ''eee5555555555555555555555555555555555555555555555555555555555555'')] \<and>
   spec_entry_count
     (two_lines ''ccc3333333333333333333333333333333333333333333333333333333333333''
        ''golangci-lint-2.6.1-linux-amd64.tar.gz''
        ''eee5555555555555555555555555555555555555555555555555555555555555''
        ''golangci-lint-2.6.1-windows-amd64.zip'') = 2"
proof -
  note p = two_lines_parse[OF good_linux good_windows]
  have h: "ParseChecksumFile
     (two_lines ''ccc3333333333333333333333333333333333333333333333333333333333333''
        ''golangci-lint-2.6.1-linux-amd64.tar.gz''
        ''eee5555555555555555555555555555555555555555555555555555555555555''
        ''golangci-lint-2.6.1-windows-amd64.zip'') =
     Inr [(\<lparr>OS = ''linux'', Arch = ''amd64''\<rparr>,
           ''ccc3333333333333333333333333333333333333333333333333333333333333''),
          (\<lparr>OS = ''windows'', Arch = ''amd64''\<rparr>,
           ''eee5555555555555555555555555555555555555555555555555555555555555'')]"
    using p(3) by (simp add: MaxScanTokenSize_def)
  have d: "distinct (map fst (accepted_entries
     (two_lines ''ccc3333333333333333333333333333333333333333333333333333333333333''
        ''golangci-lint-2.6.1-linux-amd64.tar.gz''
        ''eee5555555555555555555555555555555555555555555555555555555555555''
        ''golangci-lint-2.6.1-windows-amd64.zip'')))"
    using p(5) by (simp add: MaxScanTokenSize_def)
  from ParseChecksumFile_entry_count[OF h] d h show ?thesis by simp
qed

text \<open>
  Claim C3 as stated fails on a manifest with two accepted lines for one platform: both
  lines pass the three filters and extract, so the count of the specification is \<open>2\<close>,
  and the mapping has one entry.
\<close>

theorem ParseChecksumFile_entry_count_duplicate:
  "ParseChecksumFile
     (two_lines ''ccc3333333333333333333333333333333333333333333333333333333333333''
        ''golangci-lint-2.6.1-linux-amd64.tar.gz''
        ''AEE6E16AF4DFA60DD3C4E39536EDC905F28369FDA3C138090DB00C8233CFE450''
        ''golangci-lint-2.6.1-linux-amd64.tar.gz'') =
     Inr [(\<lparr>OS = ''linux'', Arch = ''amd64''\<rparr>,
           ''AEE6E16AF4DFA60DD3C4E39536EDC905F28369FDA3C138090DB00C8233CFE450'')] \<and>
   spec_entry_count
     (two_lines ''ccc3333333333333333333333333333333333333333333333333333333333333''
        ''golangci-lint-2.6.1-linux-amd64.tar.gz''
        ''AEE6E16AF4DFA60DD3C4E39536EDC905F28369FDA3C138090DB00C8233CFE450''
        ''golangci-lint-2.6.1-linux-amd64.tar.gz'') = 2"
proof -
  note p = two_lines_parse[OF good_linux good_linux_upper]
  have "length (accepted_entries
     (two_lines ''ccc3333333333333333333333333333333333333333333333333333333333333''
        ''golangci-lint-2.6.1-linux-amd64.tar.gz''
        ''AEE6E16AF4DFA60DD3C4E39536EDC905F28369FDA3C138090DB00C8233CFE450''
        ''golangci-lint-2.6.1-linux-amd64.tar.gz'')) = 2"
    using p(5) by (simp add: MaxScanTokenSize_def)
  then have "spec_entry_count
     (two_lines ''ccc3333333333333333333333333333333333333333333333333333333333333''
        ''golangci-lint-2.6.1-linux-amd64.tar.gz''
        ''AEE6E16AF4DFA60DD3C4E39536EDC905F28369FDA3C138090DB00C8233CFE450''
        ''golangci-lint-2.6.1-linux-amd64.tar.gz'') = 2"
    by (simp add: accepted_entries_def spec_entry_count_def length_map_filter_line_entry)
  moreover have "ParseChecksumFile
     (two_lines ''ccc3333333333333333333333333333333333333333333333333333333333333''
        ''golangci-lint-2.6.1-linux-amd64.tar.gz''
        ''AEE6E16AF4DFA60DD3C4E39536EDC905F28369FDA3C138090DB00C8233CFE450''
        ''golangci-lint-2.6.1-linux-amd64.tar.gz'') =
     Inr [(\<lparr>OS = ''linux'', Arch = ''amd64''\<rparr>,
           ''AEE6E16AF4DFA60DD3C4E39536EDC905F28369FDA3C138090DB00C8233CFE450'')]"
    using p(3) by (simp add: MaxScanTokenSize_def)
  ultimately show ?thesis by simp
qed

lemma raw_lines_replicate:
  "c \<noteq> CHR 0x0A \<Longrightarrow> 0 < n \<Longrightarrow> raw_lines [] (replicate n c) = [replicate n c]"
  using raw_lines_last[of "replicate n c" "[]"] by auto

lemma MaxScanTokenSize_pos: "0 < MaxScanTokenSize"
  by (simp add: MaxScanTokenSize_def)

lemma accepted_entries_Nil_fold:
  "List.map_filter f ls = [] \<Longrightarrow> fold add_entry (map f ls) al = al"
  by (induction ls) (auto simp: List.map_filter_simps add_entry_def split: option.splits)

text \<open>
  Claim C4, as the code has it.  \<open>ParseChecksumFile\<close> returns a mapping exactly when every
  raw line of the input is shorter than \<open>bufio.MaxScanTokenSize\<close>, 65536 bytes; otherwise
  it returns the scanner's \<open>ErrTooLong\<close>, wrapped.  When it returns a mapping and no line
  is accepted, the mapping is empty; the empty input gives the empty mapping.
\<close>

theorem ParseChecksumFile_error_iff:
  "((\<exists>m. ParseChecksumFile content = Inr m) \<longleftrightarrow> fits content) \<and>
   (\<not> fits content \<longrightarrow>
      ParseChecksumFile content = Inl (Wrapf ''error reading checksum file'' ErrTooLong)) \<and>
   (fits content \<and> accepted_entries content = [] \<longrightarrow> ParseChecksumFile content = Inr []) \<and>
   ParseChecksumFile [] = Inr []"
proof -
  have 1: "(\<exists>m. ParseChecksumFile content = Inr m) \<longleftrightarrow> fits content"
    by (rule ParseChecksumFile_Inr_iff)
  have 2: "ParseChecksumFile content = Inl (Wrapf ''error reading checksum file'' ErrTooLong)"
    if "\<not> fits content" using that by (rule ParseChecksumFile_too_long)
  have 3: "ParseChecksumFile content = Inr []" if "fits content" "accepted_entries content = []"
    using ParseChecksumFile_fits[OF that(1)] that(2)
    by (simp add: ParseChecksumFile_def accepted_entries_def accepted_entries_Nil_fold)
  have 4: "ParseChecksumFile [] = Inr []"
    by (simp add: ParseChecksumFile_def ParseChecksumFile_run_def)
  from 1 2 3 4 show ?thesis by blast
qed

theorem ParseChecksumFile_error_iff_witness:
  "fits ''bad line'' \<and> accepted_entries ''bad line'' = [] \<and>
   ParseChecksumFile ''bad line'' = Inr [] \<and>
   \<not> fits (replicate MaxScanTokenSize (CHR ''a'')) \<and>
   ParseChecksumFile (replicate MaxScanTokenSize (CHR ''a'')) =
     Inl (Wrapf ''error reading checksum file'' ErrTooLong)"
proof -
  have raw: "raw_lines [] ''bad line'' = [''bad line'']" by simp
  have f: "fits ''bad line''" by (simp add: fits_def MaxScanTokenSize_def)
  have "Fields ''bad line'' = [''bad'', ''line'']"
    by (simp add: Fields_def leading_space_def space_runes_def)
  moreover have "TrimSpace ''bad line'' = ''bad line''"
    by (rule TrimSpace_plain) (simp_all add: plain_def)
  ultimately have "line_entry ''bad line'' = None"
    by (simp add: line_entry_def passes_filters_def isValidSHA256_def)
  then have a: "accepted_entries ''bad line'' = []"
    by (simp add: accepted_entries_def manifest_lines_def dropCR_def List.map_filter_simps)
  have n: "\<not> fits (replicate MaxScanTokenSize (CHR ''a''))"
    by (simp add: fits_def raw_lines_replicate MaxScanTokenSize_pos)
  from f a n ParseChecksumFile_error_iff[of "''bad line''"]
    ParseChecksumFile_error_iff[of "replicate MaxScanTokenSize (CHR ''a'')"]
  show ?thesis by simp
qed

text \<open>
  Claim C4 as stated fails: on an input of 65536 bytes with no line feed, all in memory,
  the scanner's buffer fills up and \<open>ParseChecksumFile\<close> returns an error.
\<close>

theorem ParseChecksumFile_long_line_error:
  "ParseChecksumFile (replicate MaxScanTokenSize (CHR ''a'')) =
     Inl (Wrapf ''error reading checksum file'' (Errorf ''bufio.Scanner: token too long''))"
proof -
  have "\<not> fits (replicate MaxScanTokenSize (CHR ''a''))"
    by (simp add: fits_def raw_lines_replicate MaxScanTokenSize_pos)
  from ParseChecksumFile_too_long[OF this] show ?thesis by (simp add: ErrTooLong_def)
qed

text \<open>
  Claim C6.  Every hash in the mapping \<open>ParseChecksumFile\<close> returns has 64 characters,
  each in \<open>[0-9a-fA-F]\<close>, and is the first token of a line of the manifest, byte for
  byte: nothing converts its case.
\<close>

theorem ParseChecksumFile_hashes_valid:
  assumes "ParseChecksumFile content = Inr m" and "(p, h) \<in> set m"
  shows "length h = 64 \<and> list_all is_hex h \<and> isValidSHA256 h \<and>
         (\<exists>line \<in> set (manifest_lines content).
            hd (Fields (TrimSpace line)) = h \<and> line_entry line = Some (p, h))"
proof -
  from ParseChecksumFile_Inr(1)[OF assms(1)] assms(2)
  have "(p, h) \<in> set (fold add_entry (map line_entry (manifest_lines content)) [])" by simp
  from fold_add_entry_mem[OF this] obtain line where
    line: "line \<in> set (manifest_lines content)" "line_entry line = Some (p, h)" by auto
  from line(2) have pf: "passes_filters line" and h: "hd (Fields (TrimSpace line)) = h"
    by (auto simp: line_entry_def split: if_splits sum.splits)
  from pf h have v: "isValidSHA256 h" by (auto simp: passes_filters_def Let_def)
  with line h show ?thesis using isValidSHA256_iff[of h] by blast
qed

theorem ParseChecksumFile_hashes_valid_witness:
  "ParseChecksumFile
     (two_lines ''ccc3333333333333333333333333333333333333333333333333333333333333''
        ''golangci-lint-2.6.1-windows-amd64.zip''
        ''AEE6E16AF4DFA60DD3C4E39536EDC905F28369FDA3C138090DB00C8233CFE450''
        ''golangci-lint-2.6.1-linux-amd64.tar.gz'') =
     Inr [(\<lparr>OS = ''windows'', Arch = ''amd64''\<rparr>,
           ''ccc3333333333333333333333333333333333333333333333333333333333333''),
          (\<lparr>OS = ''linux'', Arch = ''amd64''\<rparr>,
           ''AEE6E16AF4DFA60DD3C4E39536EDC905F28369FDA3C138090DB00C8233CFE450'')] \<and>
   length ''AEE6E16AF4DFA60DD3C4E39536EDC905F28369FDA3C138090DB00C8233CFE450'' = 64 \<and>
   list_all is_hex ''AEE6E16AF4DFA60DD3C4E39536EDC905F28369FDA3C138090DB00C8233CFE450'' \<and>
   isValidSHA256 ''AEE6E16AF4DFA60DD3C4E39536EDC905F28369FDA3C138090DB00C8233CFE450''"
proof -
  have g: "good_line ''ccc3333333333333333333333333333333333333333333333333333333333333''
     ''golangci-lint-2.6.1-windows-amd64.zip'' \<lparr>OS = ''windows'', Arch = ''amd64''\<rparr>"
    using good_windows good_linux by (simp add: good_line_def)
  have h: "ParseChecksumFile
     (two_lines ''ccc3333333333333333333333333333333333333333333333333333333333333''
        ''golangci-lint-2.6.1-windows-amd64.zip''
        ''AEE6E16AF4DFA60DD3C4E39536EDC905F28369FDA3C138090DB00C8233CFE450''
        ''golangci-lint-2.6.1-linux-amd64.tar.gz'') =
     Inr [(\<lparr>OS = ''windows'', Arch = ''amd64''\<rparr>,
           ''ccc3333333333333333333333333333333333333333333333333333333333333''),
          (\<lparr>OS = ''linux'', Arch = ''amd64''\<rparr>,
           ''AEE6E16AF4DFA60DD3C4E39536EDC905F28369FDA3C138090DB00C8233CFE450'')]"
    using two_lines_parse(3)[OF g good_linux_upper] by (simp add: MaxScanTokenSize_def)
  from ParseChecksumFile_hashes_valid[OF h, of "\<lparr>OS = ''linux'', Arch = ''amd64''\<rparr>"
      "''AEE6E16AF4DFA60DD3C4E39536EDC905F28369FDA3C138090DB00C8233CFE450''"] h
  show ?thesis by simp
qed





section \<open>generator.go\<close>

subsection \<open>SortedArchKeys and SortedOSKeys\<close>

text \<open>
  The argument lists the entries of the map in the order \<open>range\<close> visits them.
  \<open>sort.Strings\<close> sorts by Go's \<open>&lt;\<close> on strings, the lexicographic order of the
  bytes; that is the order of \<^typ>\<open>string\<close> here, and \<^const>\<open>sort\<close> sorts by it.
\<close>

definition SortedArchKeys :: "(string \<times> string) list \<Rightarrow> string list" where
  "SortedArchKeys m = (let keys = fold (\<lambda>(k, v) keys. keys @ [k]) m [] in sort keys)"

definition SortedOSKeys :: "(string \<times> (string \<times> string) list) list \<Rightarrow> string list" where
  "SortedOSKeys m = (let keys = fold (\<lambda>(k, v) keys. keys @ [k]) m [] in sort keys)"

text \<open>The lexicographic order of byte strings, written out.\<close>

definition bytes_less :: "string \<Rightarrow> string \<Rightarrow> bool" where
  "bytes_less a b = ((a, b) \<in> lexord {(c, d). (of_char c :: nat) < of_char d})"

lemma bytes_less_iff: "bytes_less a b \<longleftrightarrow> a < b"
proof -
  have "{(c :: char, d). (of_char c :: nat) < of_char d} = {(c, d). c < d}"
    by (simp add: less_char_def)
  then show ?thesis by (simp add: bytes_less_def list_less_def)
qed

lemma fold_keys: "fold (\<lambda>(k, v) keys. keys @ [k]) m acc = acc @ map fst m"
  by (induction m arbitrary: acc) (auto split: prod.splits)

lemma sort_keys_sorted_list:
  "distinct ks \<Longrightarrow> sort ks = sorted_list_of_set (set ks)"
  by (simp add: sorted_list_of_set_sort_remdups distinct_remdups_id)

lemma sorted_list_strict:
  fixes ks :: "string list"
  shows "distinct ks \<Longrightarrow> sorted_wrt bytes_less (sort ks)"
proof -
  assume "distinct ks"
  then have "distinct (sort ks)" by simp
  moreover have "sorted (sort ks)" by simp
  ultimately have "sorted_wrt (<) (sort ks)" by (simp add: strict_sorted_iff)
  moreover have "bytes_less = (<)" by (intro ext) (simp add: bytes_less_iff)
  ultimately show ?thesis by simp
qed

text \<open>
  Claim C2.  For a map, whose keys are pairwise distinct, both functions return the
  keys of the map, each once, in strictly ascending lexicographic order of their bytes:
  the sorted list of the key set.  So two maps with the same key set give the same
  list, whatever the order in which their entries are visited.
\<close>

theorem SortedKeys_sorted:
  assumes "distinct (map fst am)" and "distinct (map fst om)"
  shows "SortedArchKeys am = sorted_list_of_set (fst ` set am) \<and>
         set (SortedArchKeys am) = fst ` set am \<and>
         distinct (SortedArchKeys am) \<and>
         sorted_wrt bytes_less (SortedArchKeys am) \<and>
         (\<forall>am'. distinct (map fst am') \<and> fst ` set am' = fst ` set am \<longrightarrow>
            SortedArchKeys am' = SortedArchKeys am) \<and>
         SortedOSKeys om = sorted_list_of_set (fst ` set om) \<and>
         set (SortedOSKeys om) = fst ` set om \<and>
         distinct (SortedOSKeys om) \<and>
         sorted_wrt bytes_less (SortedOSKeys om) \<and>
         (\<forall>om'. distinct (map fst om') \<and> fst ` set om' = fst ` set om \<longrightarrow>
            SortedOSKeys om' = SortedOSKeys om)"
proof -
  have a: "SortedArchKeys m = sort (map fst m)" for m
    by (simp add: SortedArchKeys_def fold_keys)
  have b: "SortedOSKeys m = sort (map fst m)" for m
    by (simp add: SortedOSKeys_def fold_keys)
  have a1: "SortedArchKeys m = sorted_list_of_set (fst ` set m)" if "distinct (map fst m)" for m
    using sort_keys_sorted_list[OF that] by (simp add: a)
  have b1: "SortedOSKeys m = sorted_list_of_set (fst ` set m)" if "distinct (map fst m)" for m
    using sort_keys_sorted_list[OF that] by (simp add: b)
  have a4: "sorted_wrt bytes_less (SortedArchKeys am)"
    unfolding a by (rule sorted_list_strict[OF assms(1)])
  have b4: "sorted_wrt bytes_less (SortedOSKeys om)"
    unfolding b by (rule sorted_list_strict[OF assms(2)])
  have a5: "SortedArchKeys am' = SortedArchKeys am"
    if "distinct (map fst am') \<and> fst ` set am' = fst ` set am" for am'
    using that a1[OF assms(1)] a1[of am'] by simp
  have b5: "SortedOSKeys om' = SortedOSKeys om"
    if "distinct (map fst om') \<and> fst ` set om' = fst ` set om" for om'
    using that b1[OF assms(2)] b1[of om'] by simp
  have a2: "set (SortedArchKeys am) = fst ` set am" "distinct (SortedArchKeys am)"
    using assms(1) by (simp_all add: a)
  have b2: "set (SortedOSKeys om) = fst ` set om" "distinct (SortedOSKeys om)"
    using assms(2) by (simp_all add: b)
  show ?thesis
  proof (intro conjI allI impI)
    show "SortedArchKeys am = sorted_list_of_set (fst ` set am)" by (rule a1[OF assms(1)])
    show "SortedOSKeys om = sorted_list_of_set (fst ` set om)" by (rule b1[OF assms(2)])
  qed (fact a2 b2 a4 b4 | erule a5 | erule b5)+
qed

theorem SortedKeys_sorted_witness:
  "SortedArchKeys [(''arm64'', ''h1''), (''386'', ''h2''), (''amd64'', ''h3'')] =
     [''386'', ''amd64'', ''arm64''] \<and>
   SortedArchKeys [(''amd64'', ''h3''), (''arm64'', ''h1''), (''386'', ''h2'')] =
     [''386'', ''amd64'', ''arm64''] \<and>
   SortedOSKeys [(''windows'', []), (''darwin'', [(''arm64'', ''h1'')]), (''linux'', [])] =
     [''darwin'', ''linux'', ''windows''] \<and>
   SortedOSKeys [(''linux'', []), (''windows'', []), (''darwin'', [(''arm64'', ''h1'')])] =
     [''darwin'', ''linux'', ''windows'']"
proof -
  let ?am = "[(''arm64'', ''h1''), (''386'', ''h2''), (''amd64'', ''h3'')]"
  let ?am' = "[(''amd64'', ''h3''), (''arm64'', ''h1''), (''386'', ''h2'')]"
  let ?om = "[(''windows'', []), (''darwin'', [(''arm64'', ''h1'')]), (''linux'', [])]"
  let ?om' = "[(''linux'', []), (''windows'', []), (''darwin'', [(''arm64'', ''h1'')])]"
  have d: "distinct (map fst ?am)" "distinct (map fst ?om)" by simp_all
  have d': "distinct (map fst ?am') \<and> fst ` set ?am' = fst ` set ?am"
    "distinct (map fst ?om') \<and> fst ` set ?om' = fst ` set ?om" by auto
  have v: "SortedArchKeys ?am = [''386'', ''amd64'', ''arm64'']"
    "SortedOSKeys ?om = [''darwin'', ''linux'', ''windows'']"
    by (simp_all add: SortedArchKeys_def SortedOSKeys_def less_eq_char_def less_char_def)
  note t = SortedKeys_sorted[OF d]
  from t have "\<forall>am'. distinct (map fst am') \<and> fst ` set am' = fst ` set ?am \<longrightarrow>
            SortedArchKeys am' = SortedArchKeys ?am" by (elim conjE)
  with d'(1) have 1: "SortedArchKeys ?am' = SortedArchKeys ?am" by (elim allE impE)
  from t have "\<forall>om'. distinct (map fst om') \<and> fst ` set om' = fst ` set ?om \<longrightarrow>
            SortedOSKeys om' = SortedOSKeys ?om" by (elim conjE)
  with d'(2) have 2: "SortedOSKeys ?om' = SortedOSKeys ?om" by (elim allE impE)
  from v 1 2 show ?thesis by (simp only: simp_thms)
qed

subsection \<open>organizePlatformsByOS and PrepareTemplateData\<close>

text \<open>One round of the loop of \<open>organizePlatformsByOS\<close>: the inner map is made when the
  operating system has none yet, then the architecture is set in it.\<close>

definition organize_step ::
  "Platform \<times> string \<Rightarrow> (string \<times> (string \<times> string) list) list \<Rightarrow>
   (string \<times> (string \<times> string) list) list" where
  "organize_step entry result =
    (case entry of (platform, hash) \<Rightarrow>
       let result1 = (case map_of result (OS platform) of
                        None \<Rightarrow> AList.update (OS platform) [] result
                      | Some inner \<Rightarrow> result);
           inner = (case map_of result1 (OS platform) of None \<Rightarrow> [] | Some inner \<Rightarrow> inner)
       in AList.update (OS platform) (AList.update (Arch platform) hash inner) result1)"

definition organizePlatformsByOS ::
  "(Platform \<times> string) list \<Rightarrow> (string \<times> (string \<times> string) list) list" where
  "organizePlatformsByOS checksums = fold organize_step checksums []"

text \<open>\<open>now\<close> is \<open>time.Now().UTC().Format(time.RFC3339)\<close>.\<close>

definition PrepareTemplateData :: "string \<Rightarrow> Version list \<Rightarrow> TemplateData" where
  "PrepareTemplateData now versions =
    (if length versions = 0
     then \<lparr>GeneratedAt = now, DefaultVersion = [], Versions = []\<rparr>
     else
       let versionData =
             fold (\<lambda>v versionData.
                     versionData @ [\<lparr>vdTag = Tag v, ChecksumsByOS = organizePlatformsByOS (Checksums v)\<rparr>])
               versions []
       in \<lparr>GeneratedAt = now, DefaultVersion = Tag (versions ! 0), Versions = versionData\<rparr>)"

lemma fold_versionData:
  "fold (\<lambda>v versionData. versionData @ [f v]) versions acc = acc @ map f versions"
  by (induction versions arbitrary: acc) simp_all

text \<open>
  Claim C9.  For a non-empty list of versions, \<open>DefaultVersion\<close> is the tag of the first
  element, whatever its checksums are, the empty mapping included, and whatever the
  later elements hold; the versions are rendered one for one, in order.
\<close>

theorem PrepareTemplateData_default:
  assumes "versions \<noteq> []"
  shows "DefaultVersion (PrepareTemplateData now versions) = Tag (hd versions) \<and>
         map vdTag (Versions (PrepareTemplateData now versions)) = map Tag versions \<and>
         (\<forall>v \<in> set (tl versions). Tag v \<noteq> Tag (hd versions) \<longrightarrow>
            DefaultVersion (PrepareTemplateData now versions) \<noteq> Tag v)"
proof -
  from assms obtain v vs where vs: "versions = v # vs" by (cases versions) auto
  then show ?thesis
    by (simp add: PrepareTemplateData_def fold_versionData comp_def)
qed

theorem PrepareTemplateData_default_witness:
  "DefaultVersion
     (PrepareTemplateData ''2025-11-11T00:00:00Z''
        [\<lparr>Tag = ''v2.6.1'', Checksums = []\<rparr>,
         \<lparr>Tag = ''v2.6.0'',
          Checksums = [(\<lparr>OS = ''linux'', Arch = ''amd64''\<rparr>,
             ''ddd4444444444444444444444444444444444444444444444444444444444444'')]\<rparr>]) =
     ''v2.6.1'' \<and>
   DefaultVersion
     (PrepareTemplateData ''2025-11-11T00:00:00Z''
        [\<lparr>Tag = ''v2.6.1'', Checksums = []\<rparr>,
         \<lparr>Tag = ''v2.6.0'',
          Checksums = [(\<lparr>OS = ''linux'', Arch = ''amd64''\<rparr>,
             ''ddd4444444444444444444444444444444444444444444444444444444444444'')]\<rparr>]) \<noteq>
     ''v2.6.0''"
proof -
  let ?vs = "[\<lparr>Tag = ''v2.6.1'', Checksums = []\<rparr>,
         \<lparr>Tag = ''v2.6.0'',
          Checksums = [(\<lparr>OS = ''linux'', Arch = ''amd64''\<rparr>,
             ''ddd4444444444444444444444444444444444444444444444444444444444444'')]\<rparr>]"
  have ne: "?vs \<noteq> []" by simp
  from PrepareTemplateData_default[OF ne, of "''2025-11-11T00:00:00Z''"]
  have "DefaultVersion (PrepareTemplateData ''2025-11-11T00:00:00Z'' ?vs) = Tag (hd ?vs)"
    by (elim conjE)
  then show ?thesis by simp
qed

text \<open>The grouping on the data of the test \<open>checksums organized by OS\<close>.\<close>

lemma organize_example:
  "organizePlatformsByOS
     [(\<lparr>OS = ''linux'', Arch = ''amd64''\<rparr>, ''abc123''),
      (\<lparr>OS = ''darwin'', Arch = ''arm64''\<rparr>, ''ghi789''),
      (\<lparr>OS = ''linux'', Arch = ''arm64''\<rparr>, ''def456'')] =
   [(''linux'', [(''amd64'', ''abc123''), (''arm64'', ''def456'')]),
    (''darwin'', [(''arm64'', ''ghi789'')])]"
  by (simp add: organizePlatformsByOS_def organize_step_def)

subsection \<open>The file system and the operating system\<close>

text \<open>
  The files: a path has a content or does not exist.  What the operating system, the
  template engine and the clock do beyond that is not the program's: \<open>os_env\<close> says,
  for each call the program makes, whether it fails and with which error.  \<open>Execute\<close>
  gives the bytes \<open>tmpl.Execute\<close> wrote to the file before it returned, and its error.
  \<open>IsAbs\<close>, \<open>Join\<close> and \<open>Dir\<close> are the functions of \<open>path/filepath\<close>.
\<close>

type_synonym fs = "string \<Rightarrow> string option"

record os_env =
  ParseFS_err :: "error option"
  Execute :: "TemplateData \<Rightarrow> string \<times> error option"
  Create_err :: "string \<Rightarrow> error option"
  Close_err :: "string \<Rightarrow> error option"
  Rename_err :: "string \<Rightarrow> string \<Rightarrow> error option"
  Remove_err :: "string \<Rightarrow> error option"
  MkdirAll_err :: "string \<Rightarrow> error option"
  Stat_err :: "string \<Rightarrow> error option"
  ReadFile_err :: "string \<Rightarrow> error option"
  WriteFile_err :: "string \<Rightarrow> error option"
  IsAbs :: "string \<Rightarrow> bool"
  Join :: "string \<Rightarrow> string \<Rightarrow> string"
  Dir :: "string \<Rightarrow> string"
  Now :: string

definition ErrNotExist :: error where
  "ErrNotExist = Errorf ''file does not exist''"

text \<open>\<open>os.Create\<close>: the file exists and is empty afterwards.\<close>

definition os_Create :: "os_env \<Rightarrow> string \<Rightarrow> fs \<Rightarrow> error option \<times> fs" where
  "os_Create env name files =
    (case Create_err env name of
       Some err \<Rightarrow> (Some err, files)
     | None \<Rightarrow> (None, files(name \<mapsto> [])))"

text \<open>\<open>os.Remove\<close>: the file is gone afterwards, unless the call fails.\<close>

definition os_Remove :: "os_env \<Rightarrow> string \<Rightarrow> fs \<Rightarrow> error option \<times> fs" where
  "os_Remove env name files =
    (case files name of
       None \<Rightarrow> (Some ErrNotExist, files)
     | Some content \<Rightarrow>
         (case Remove_err env name of
            Some err \<Rightarrow> (Some err, files)
          | None \<Rightarrow> (None, files(name := None))))"

text \<open>\<open>os.Rename\<close>: the new path has the content of the old one, which is gone; a
  failed call changes nothing.\<close>

definition os_Rename :: "os_env \<Rightarrow> string \<Rightarrow> string \<Rightarrow> fs \<Rightarrow> error option \<times> fs" where
  "os_Rename env oldpath newpath files =
    (case files oldpath of
       None \<Rightarrow> (Some ErrNotExist, files)
     | Some content \<Rightarrow>
         (case Rename_err env oldpath newpath of
            Some err \<Rightarrow> (Some err, files)
          | None \<Rightarrow> (None, if oldpath = newpath then files
                          else files(newpath \<mapsto> content, oldpath := None))))"

subsection \<open>GenerateStarlarkFile\<close>

text \<open>The result is the error returned, \<open>None\<close> for \<open>nil\<close>, and the files afterwards.
  The errors of \<open>os.Remove\<close> and of the deferred second \<open>f.Close()\<close> are dropped, as in
  the source.\<close>

definition GenerateStarlarkFile :: "os_env \<Rightarrow> TemplateData \<Rightarrow> string \<Rightarrow> fs \<Rightarrow> error option \<times> fs" where
  "GenerateStarlarkFile env data outputPath files =
    (case ParseFS_err env of
       Some err \<Rightarrow> (Some (Wrapf ''failed to parse template'' err), files)
     | None \<Rightarrow>
         let tempFile = outputPath @ ''.tmp'' in
         (case os_Create env tempFile files of
            (Some err, files1) \<Rightarrow> (Some (Wrapf ''failed to create temp file'' err), files1)
          | (None, files1) \<Rightarrow>
              (case Execute env data of
                 (written, Some err) \<Rightarrow>
                   (Some (Wrapf ''failed to execute template'' err),
                    snd (os_Remove env tempFile (files1(tempFile \<mapsto> written))))
               | (written, None) \<Rightarrow>
                   let files2 = files1(tempFile \<mapsto> written) in
                   (case Close_err env tempFile of
                      Some err \<Rightarrow>
                        (Some (Wrapf ''failed to close temp file'' err),
                         snd (os_Remove env tempFile files2))
                    | None \<Rightarrow>
                        (case os_Rename env tempFile outputPath files2 of
                           (Some err, files3) \<Rightarrow>
                             (Some (Wrapf ''failed to rename temp file'' err),
                              snd (os_Remove env tempFile files3))
                         | (None, files3) \<Rightarrow> (None, files3))))))"

lemma tmp_neq: "outputPath @ ''.tmp'' \<noteq> outputPath"
  by simp

text \<open>Some step after the creation of the temporary file fails.\<close>

definition fails_after_create :: "os_env \<Rightarrow> TemplateData \<Rightarrow> string \<Rightarrow> bool" where
  "fails_after_create env data outputPath =
    (snd (Execute env data) \<noteq> None \<or> Close_err env (outputPath @ ''.tmp'') \<noteq> None \<or>
     Rename_err env (outputPath @ ''.tmp'') outputPath \<noteq> None)"

definition created :: "os_env \<Rightarrow> string \<Rightarrow> bool" where
  "created env outputPath = (ParseFS_err env = None \<and> Create_err env (outputPath @ ''.tmp'') = None)"



lemma GenerateStarlarkFile_error_iff:
  "fst (GenerateStarlarkFile env data outputPath files) \<noteq> None \<longleftrightarrow>
     \<not> created env outputPath \<or> fails_after_create env data outputPath"
  by (auto simp: GenerateStarlarkFile_def os_Create_def os_Rename_def os_Remove_def Let_def
      created_def fails_after_create_def
      split: option.splits prod.splits if_splits)

subsection \<open>A sample environment\<close>

text \<open>An environment in which no call fails.  The template is reduced to one line, and
  the functions of \<open>path/filepath\<close> to their behaviour on clean slash-separated paths.\<close>

definition env_ok :: os_env where
  "env_ok =
    \<lparr>ParseFS_err = None,
     Execute = (\<lambda>data. (''DEFAULT_VERSION = '' @ DefaultVersion data, None)),
     Create_err = (\<lambda>name. None),
     Close_err = (\<lambda>name. None),
     Rename_err = (\<lambda>oldpath newpath. None),
     Remove_err = (\<lambda>name. None),
     MkdirAll_err = (\<lambda>path. None),
     Stat_err = (\<lambda>name. None),
     ReadFile_err = (\<lambda>name. None),
     WriteFile_err = (\<lambda>name. None),
     IsAbs = (\<lambda>path. take 1 path = ''/''),
     Join = (\<lambda>dir name. dir @ ''/'' @ name),
     Dir = (\<lambda>path. rev (drop 1 (dropWhile (\<lambda>c. c \<noteq> CHR ''/'') (rev path)))),
     Now = ''2025-11-11T00:00:00Z''\<rparr>"







section \<open>runner.go\<close>

subsection \<open>Configuration, client and world\<close>

record Config =
  Count :: int
  CacheDir :: string
  OutputFile :: string
  WorkspaceRoot :: string

text \<open>
  github.go: \<open>type GitHubAPI interface\<close>, the two operations of the release source.
  An implementation may keep a state of its own, of type \<open>'c\<close>; each call gets that
  state and gives the state afterwards.
\<close>

record 'c GitHubAPI =
  GetLatestReleases :: "'c \<Rightarrow> int \<Rightarrow> (error + Release list) \<times> 'c"
  DownloadAsset :: "'c \<Rightarrow> string \<Rightarrow> (error + string) \<times> 'c"

record 'c Runner =
  config :: Config
  client :: "'c GitHubAPI"

text \<open>What a run acts on: the files, the state of the client, and the URLs
  \<open>DownloadAsset\<close> was called with so far, in order.\<close>

record 'c world =
  disk :: fs
  github :: 'c
  downloads :: "string list"

text \<open>\<open>os.Stat\<close>, \<open>os.ReadFile\<close> and \<open>os.WriteFile\<close>.  A failed write leaves the files
  as they were.\<close>

definition os_Stat :: "os_env \<Rightarrow> string \<Rightarrow> fs \<Rightarrow> error option" where
  "os_Stat env name files =
    (case files name of
       None \<Rightarrow> Some ErrNotExist
     | Some content \<Rightarrow> Stat_err env name)"

definition os_ReadFile :: "os_env \<Rightarrow> string \<Rightarrow> fs \<Rightarrow> error + string" where
  "os_ReadFile env name files =
    (case files name of
       None \<Rightarrow> Inl ErrNotExist
     | Some content \<Rightarrow>
         (case ReadFile_err env name of
            Some err \<Rightarrow> Inl err
          | None \<Rightarrow> Inr content))"

definition os_WriteFile :: "os_env \<Rightarrow> string \<Rightarrow> string \<Rightarrow> fs \<Rightarrow> error option \<times> fs" where
  "os_WriteFile env name data files =
    (case WriteFile_err env name of
       Some err \<Rightarrow> (Some err, files)
     | None \<Rightarrow> (None, files(name \<mapsto> data)))"

subsection \<open>loadFromCacheOrDownload\<close>

definition loadFromCacheOrDownload ::
  "'c Runner \<Rightarrow> os_env \<Rightarrow> string \<Rightarrow> string \<Rightarrow> 'c world \<Rightarrow> (error + string) \<times> 'c world" where
  "loadFromCacheOrDownload r env cacheFile tag w =
    (if os_Stat env cacheFile (disk w) = None
     then
       (case os_ReadFile env cacheFile (disk w) of
          Inl err \<Rightarrow> (Inl (Wrapf ''failed to read cache file'' err), w)
        | Inr data \<Rightarrow> (Inr data, w))
     else
       let version = (if length tag > 0 \<and> tag ! 0 = CHR ''v'' then drop 1 tag else tag);
           url = ''https://github.com/golangci/golangci-lint/releases/download/'' @ tag @
                 ''/golangci-lint-'' @ version @ ''-checksums.txt''
       in
       (case DownloadAsset (client r) (github w) url of
          (Inl err, g) \<Rightarrow>
            (Inl (Wrapf ''failed to download checksum file'' err),
             w\<lparr>github := g, downloads := downloads w @ [url]\<rparr>)
        | (Inr data, g) \<Rightarrow>
            (Inr data,
             w\<lparr>disk := snd (os_WriteFile env cacheFile data (disk w)),
               github := g, downloads := downloads w @ [url]\<rparr>)))"

subsection \<open>processReleases\<close>

text \<open>The loop over the releases; \<open>versions\<close> is the slice appended to.\<close>

fun processReleases_loop ::
  "'c Runner \<Rightarrow> os_env \<Rightarrow> string \<Rightarrow> Release list \<Rightarrow> Version list \<Rightarrow> 'c world \<Rightarrow>
   Version list \<times> 'c world" where
  "processReleases_loop r env cacheDir [] versions w = (versions, w)"
| "processReleases_loop r env cacheDir (release # rest) versions w =
    (let tag = TagName release in
     if tag = [] then processReleases_loop r env cacheDir rest versions w
     else
       let cacheFile = Join env cacheDir (tag @ ''.txt'') in
       (case loadFromCacheOrDownload r env cacheFile tag w of
          (Inl err, w1) \<Rightarrow> processReleases_loop r env cacheDir rest versions w1
        | (Inr checksumData, w1) \<Rightarrow>
            (case ParseChecksumFile checksumData of
               Inl err \<Rightarrow> processReleases_loop r env cacheDir rest versions w1
             | Inr checksums \<Rightarrow>
                 processReleases_loop r env cacheDir rest
                   (versions @ [\<lparr>Tag = tag, Checksums = checksums\<rparr>]) w1)))"

definition processReleases ::
  "'c Runner \<Rightarrow> os_env \<Rightarrow> Release list \<Rightarrow> string \<Rightarrow> 'c world \<Rightarrow> Version list \<times> 'c world" where
  "processReleases r env releases cacheDir w = processReleases_loop r env cacheDir releases [] w"

subsection \<open>Run\<close>

definition resolveAbsolutePaths :: "'c Runner \<Rightarrow> os_env \<Rightarrow> string \<times> string" where
  "resolveAbsolutePaths r env =
    (let absCacheDir =
           (if IsAbs env (CacheDir (config r)) then CacheDir (config r)
            else Join env (WorkspaceRoot (config r)) (CacheDir (config r)));
         absOutputFile =
           (if IsAbs env (OutputFile (config r)) then OutputFile (config r)
            else Join env (WorkspaceRoot (config r)) (OutputFile (config r)))
     in (absCacheDir, absOutputFile))"

definition Run :: "'c Runner \<Rightarrow> os_env \<Rightarrow> 'c world \<Rightarrow> error option \<times> 'c world" where
  "Run r env w =
    (case resolveAbsolutePaths r env of (absCacheDir, absOutputFile) \<Rightarrow>
     (case MkdirAll_err env absCacheDir of
        Some err \<Rightarrow> (Some (Wrapf ''failed to create cache directory'' err), w)
      | None \<Rightarrow>
          let outputDir = Dir env absOutputFile in
          (case MkdirAll_err env outputDir of
             Some err \<Rightarrow> (Some (Wrapf ''failed to create output directory'' err), w)
           | None \<Rightarrow>
               (case GetLatestReleases (client r) (github w) (Count (config r)) of
                  (Inl err, g) \<Rightarrow> (Some (Wrapf ''failed to fetch releases'' err), w\<lparr>github := g\<rparr>)
                | (Inr releases, g) \<Rightarrow>
                    (case processReleases r env releases absCacheDir (w\<lparr>github := g\<rparr>) of
                       (versions, w1) \<Rightarrow>
                         if length versions = 0
                         then (Some (Errorf ''no versions were successfully processed''), w1)
                         else
                           let templateData = PrepareTemplateData (Now env) versions in
                           (case GenerateStarlarkFile env templateData absOutputFile (disk w1) of
                              (Some err, files) \<Rightarrow>
                                (Some (Wrapf ''failed to generate output file'' err),
                                 w1\<lparr>disk := files\<rparr>)
                            | (None, files) \<Rightarrow> (None, w1\<lparr>disk := files\<rparr>)))))))"

subsection \<open>mock_github.go\<close>

record MockGitHubClient =
  Releases :: "Release list"
  AssetContents :: "(string \<times> string) list"
  GetReleasesError :: "error option"
  DownloadError :: "error option"

text \<open>\<open>m.Releases[:count]\<close> panics on a negative \<open>count\<close>; \<open>main\<close> refuses a count that
  is not positive.  The panic is shown as an error value here.\<close>

definition Mock_GetLatestReleases ::
  "MockGitHubClient \<Rightarrow> int \<Rightarrow> (error + Release list) \<times> MockGitHubClient" where
  "Mock_GetLatestReleases m count =
    (case GetReleasesError m of
       Some err \<Rightarrow> (Inl err, m)
     | None \<Rightarrow>
         let count1 = (if count > int (length (Releases m)) then int (length (Releases m)) else count) in
         if count1 < 0 then (Inl (Errorf ''panic: slice bounds out of range''), m)
         else (Inr (take (nat count1) (Releases m)), m))"

definition Mock_DownloadAsset ::
  "MockGitHubClient \<Rightarrow> string \<Rightarrow> (error + string) \<times> MockGitHubClient" where
  "Mock_DownloadAsset m url =
    (case DownloadError m of
       Some err \<Rightarrow> (Inl err, m)
     | None \<Rightarrow>
         (case map_of (AssetContents m) url of
            None \<Rightarrow> (Inl (Errorf (''asset not found: '' @ url)), m)
          | Some content \<Rightarrow> (Inr content, m)))"

definition MockAPI :: "MockGitHubClient GitHubAPI" where
  "MockAPI = \<lparr>GetLatestReleases = Mock_GetLatestReleases, DownloadAsset = Mock_DownloadAsset\<rparr>"

subsection \<open>The cache\<close>

lemma loadFromCacheOrDownload_hit:
  assumes "disk w cacheFile = Some data" "Stat_err env cacheFile = None"
    "ReadFile_err env cacheFile = None"
  shows "loadFromCacheOrDownload r env cacheFile tag w = (Inr data, w)"
  using assms by (simp add: loadFromCacheOrDownload_def os_Stat_def os_ReadFile_def)

lemma loadFromCacheOrDownload_stat_ok:
  assumes "os_Stat env cacheFile (disk w) = None"
  shows "snd (loadFromCacheOrDownload r env cacheFile tag w) = w"
  using assms by (simp add: loadFromCacheOrDownload_def split: sum.splits)

lemma loadFromCacheOrDownload_miss:
  assumes "os_Stat env cacheFile (disk w) \<noteq> None"
  shows "length (downloads (snd (loadFromCacheOrDownload r env cacheFile tag w))) =
           Suc (length (downloads w))"
  using assms
  by (simp add: loadFromCacheOrDownload_def Let_def split: sum.splits prod.splits)

text \<open>
  Claim C8.  When the cache file exists and \<open>os.Stat\<close> and \<open>os.ReadFile\<close> succeed on it,
  \<open>loadFromCacheOrDownload\<close> returns its content as it is and leaves the world as it
  was: no call of \<open>DownloadAsset\<close> is recorded and the client's state is untouched.
  Whenever \<open>os.Stat\<close> succeeds the world is left as it was, and a call of
  \<open>DownloadAsset\<close> is recorded only when \<open>os.Stat\<close> reported an error, the cache miss.
\<close>

theorem loadFromCacheOrDownload_cache_hit:
  "(disk w cacheFile = Some data \<and> Stat_err env cacheFile = None \<and>
    ReadFile_err env cacheFile = None \<longrightarrow>
      loadFromCacheOrDownload r env cacheFile tag w = (Inr data, w)) \<and>
   (os_Stat env cacheFile (disk w) = None \<longrightarrow>
      snd (loadFromCacheOrDownload r env cacheFile tag w) = w) \<and>
   (downloads (snd (loadFromCacheOrDownload r env cacheFile tag w)) \<noteq> downloads w \<longrightarrow>
      os_Stat env cacheFile (disk w) \<noteq> None)"
proof (intro conjI impI)
  assume "disk w cacheFile = Some data \<and> Stat_err env cacheFile = None \<and>
    ReadFile_err env cacheFile = None"
  then show "loadFromCacheOrDownload r env cacheFile tag w = (Inr data, w)"
    by (simp add: loadFromCacheOrDownload_hit)
next
  assume "os_Stat env cacheFile (disk w) = None"
  then show "snd (loadFromCacheOrDownload r env cacheFile tag w) = w"
    by (rule loadFromCacheOrDownload_stat_ok)
next
  assume d: "downloads (snd (loadFromCacheOrDownload r env cacheFile tag w)) \<noteq> downloads w"
  show "os_Stat env cacheFile (disk w) \<noteq> None"
  proof
    assume "os_Stat env cacheFile (disk w) = None"
    from loadFromCacheOrDownload_stat_ok[OF this, of r tag] d show False by simp
  qed
qed

text \<open>A runner on the mock client, a configuration for it, and a manifest of one line.\<close>

definition mock_runner :: "Config \<Rightarrow> MockGitHubClient Runner" where
  "mock_runner cfg = \<lparr>config = cfg, client = MockAPI\<rparr>"

definition sample_config :: Config where
  "sample_config = \<lparr>Count = 2, CacheDir = ''cache'', OutputFile = ''versions.bzl'',
     WorkspaceRoot = ''/ws''\<rparr>"

definition one_line :: "string \<Rightarrow> string \<Rightarrow> string" where
  "one_line h f = manifest_line h f @ [CHR 0x0A]"

text \<open>The test \<open>TestRunner_Run_CacheHit\<close>: the cache holds the manifest of \<open>v2.6.1\<close>, the
  mock client has no asset.\<close>

theorem loadFromCacheOrDownload_cache_hit_witness:
  "loadFromCacheOrDownload (mock_runner sample_config) env_ok ''/ws/cache/v2.6.1.txt'' ''v2.6.1''
     \<lparr>disk = [''/ws/cache/v2.6.1.txt'' \<mapsto>
          one_line ''ccc3333333333333333333333333333333333333333333333333333333333333''
            ''golangci-lint-2.6.1-linux-amd64.tar.gz''],
      github = \<lparr>Releases = [\<lparr>TagName = ''v2.6.1''\<rparr>], AssetContents = [],
                GetReleasesError = None, DownloadError = None\<rparr>,
      downloads = []\<rparr> =
   (Inr (one_line ''ccc3333333333333333333333333333333333333333333333333333333333333''
            ''golangci-lint-2.6.1-linux-amd64.tar.gz''),
    \<lparr>disk = [''/ws/cache/v2.6.1.txt'' \<mapsto>
          one_line ''ccc3333333333333333333333333333333333333333333333333333333333333''
            ''golangci-lint-2.6.1-linux-amd64.tar.gz''],
      github = \<lparr>Releases = [\<lparr>TagName = ''v2.6.1''\<rparr>], AssetContents = [],
                GetReleasesError = None, DownloadError = None\<rparr>,
      downloads = []\<rparr>)"
proof -
  let ?w = "\<lparr>disk = [''/ws/cache/v2.6.1.txt'' \<mapsto>
          one_line ''ccc3333333333333333333333333333333333333333333333333333333333333''
            ''golangci-lint-2.6.1-linux-amd64.tar.gz''],
      github = \<lparr>Releases = [\<lparr>TagName = ''v2.6.1''\<rparr>], AssetContents = [],
                GetReleasesError = None, DownloadError = None\<rparr>,
      downloads = []\<rparr>"
  have h: "disk ?w ''/ws/cache/v2.6.1.txt'' =
      Some (one_line ''ccc3333333333333333333333333333333333333333333333333333333333333''
            ''golangci-lint-2.6.1-linux-amd64.tar.gz'') \<and>
      Stat_err env_ok ''/ws/cache/v2.6.1.txt'' = None \<and>
      ReadFile_err env_ok ''/ws/cache/v2.6.1.txt'' = None"
    by (simp add: env_ok_def)
  from loadFromCacheOrDownload_cache_hit[of ?w "''/ws/cache/v2.6.1.txt''" _ env_ok
      "mock_runner sample_config" "''v2.6.1''"] h
  show ?thesis by blast
qed

subsection \<open>The releases one by one\<close>

text \<open>
  What becomes of one release in the world \<open>w\<close>: the version recorded for it, when its
  tag is not empty and the resolution and the parsing of its manifest both succeed.
\<close>

definition release_version :: "'c Runner \<Rightarrow> os_env \<Rightarrow> string \<Rightarrow> Release \<Rightarrow> 'c world \<Rightarrow> Version option" where
  "release_version r env cacheDir release w =
    (if TagName release = [] then None
     else
       (case fst (loadFromCacheOrDownload r env (Join env cacheDir (TagName release @ ''.txt''))
                    (TagName release) w) of
          Inl err \<Rightarrow> None
        | Inr data \<Rightarrow>
            (case ParseChecksumFile data of
               Inl err \<Rightarrow> None
             | Inr checksums \<Rightarrow> Some \<lparr>Tag = TagName release, Checksums = checksums\<rparr>)))"

text \<open>The world after the release was handled.\<close>

definition release_world :: "'c Runner \<Rightarrow> os_env \<Rightarrow> string \<Rightarrow> Release \<Rightarrow> 'c world \<Rightarrow> 'c world" where
  "release_world r env cacheDir release w =
    (if TagName release = [] then w
     else snd (loadFromCacheOrDownload r env (Join env cacheDir (TagName release @ ''.txt''))
                 (TagName release) w))"

text \<open>The outcome of each release of the list, each in the world the releases before it
  have left.\<close>

fun outcomes :: "'c Runner \<Rightarrow> os_env \<Rightarrow> string \<Rightarrow> Release list \<Rightarrow> 'c world \<Rightarrow> Version option list" where
  "outcomes r env cacheDir [] w = []"
| "outcomes r env cacheDir (release # rest) w =
     release_version r env cacheDir release w #
     outcomes r env cacheDir rest (release_world r env cacheDir release w)"

text \<open>The releases that fail: an empty tag, a failed resolution, or a failed parse.\<close>

definition failures :: "'c Runner \<Rightarrow> os_env \<Rightarrow> string \<Rightarrow> Release list \<Rightarrow> 'c world \<Rightarrow> nat" where
  "failures r env cacheDir releases w =
     length (filter (\<lambda>outcome. outcome = None) (outcomes r env cacheDir releases w))"

lemma processReleases_loop_outcomes:
  "fst (processReleases_loop r env cacheDir releases versions w) =
     versions @ List.map_filter id (outcomes r env cacheDir releases w)"
proof (induction releases arbitrary: versions w)
  case Nil
  then show ?case by (simp add: List.map_filter_simps)
next
  case (Cons release rest)
  show ?case
  proof (cases "TagName release = []")
    case True
    then show ?thesis
      by (simp add: Cons.IH release_version_def release_world_def List.map_filter_simps)
  next
    case False
    obtain res w1 where l: "loadFromCacheOrDownload r env (Join env cacheDir (TagName release @ ''.txt''))
        (TagName release) w = (res, w1)" by (cases "loadFromCacheOrDownload r env
        (Join env cacheDir (TagName release @ ''.txt'')) (TagName release) w")
    show ?thesis
    proof (cases res)
      case (Inl err)
      with False l show ?thesis
        by (simp add: Cons.IH release_version_def release_world_def List.map_filter_simps)
    next
      case (Inr data)
      with False l show ?thesis
        by (cases "ParseChecksumFile data")
           (simp_all add: Cons.IH release_version_def release_world_def List.map_filter_simps)
    qed
  qed
qed

lemma length_outcomes: "length (outcomes r env cacheDir releases w) = length releases"
  by (induction releases arbitrary: w) simp_all

lemma length_map_filter_id:
  "length (List.map_filter id os) = length os - length (filter (\<lambda>outcome. outcome = None) os)"
proof (induction os)
  case Nil
  then show ?case by (simp add: List.map_filter_simps)
next
  case (Cons a os)
  have "length (filter (\<lambda>outcome. outcome = None) os) \<le> length os" by simp
  with Cons show ?case by (cases a) (simp_all add: List.map_filter_simps Suc_diff_le)
qed

lemma outcomes_tags:
  "i < length releases \<Longrightarrow> outcomes r env cacheDir releases w ! i = Some v \<Longrightarrow>
     Tag v = TagName (releases ! i) \<and> Tag v \<noteq> [] \<and> (\<exists>data. ParseChecksumFile data = Inr (Checksums v))"
proof (induction releases arbitrary: w i)
  case Nil
  then show ?case by simp
next
  case (Cons release rest)
  show ?case
  proof (cases i)
    case 0
    with Cons.prems(2) have "release_version r env cacheDir release w = Some v" by simp
    then have "Tag v = TagName release \<and> Tag v \<noteq> [] \<and> (\<exists>data. ParseChecksumFile data = Inr (Checksums v))"
      by (auto simp: release_version_def split: if_splits sum.splits)
    with 0 show ?thesis by auto
  next
    case (Suc j)
    with Cons.prems have "j < length rest"
      "outcomes r env cacheDir rest (release_world r env cacheDir release w) ! j = Some v"
      by simp_all
    from Cons.IH[OF this] Suc show ?thesis by auto
  qed
qed

lemma map_filter_id_subseq: "subseq (map Some (List.map_filter id os)) os"
proof (induction os)
  case Nil
  then show ?case by (simp add: List.map_filter_simps)
next
  case (Cons a os)
  show ?case
  proof (cases a)
    case None
    with Cons show ?thesis by (simp add: List.map_filter_simps list_emb_Cons)
  next
    case (Some v)
    with Cons show ?thesis by (simp add: List.map_filter_simps)
  qed
qed

lemma Run_no_versions:
  assumes "resolveAbsolutePaths r env = (absCacheDir, absOutputFile)"
    and "MkdirAll_err env absCacheDir = None"
    and "MkdirAll_err env (Dir env absOutputFile) = None"
    and "GetLatestReleases (client r) (github w) (Count (config r)) = (Inr releases, g)"
    and "fst (processReleases r env releases absCacheDir (w\<lparr>github := g\<rparr>)) = []"
  shows "fst (Run r env w) = Some (Errorf ''no versions were successfully processed'')"
proof -
  obtain versions w1 where p: "processReleases r env releases absCacheDir (w\<lparr>github := g\<rparr>) = (versions, w1)"
    by (cases "processReleases r env releases absCacheDir (w\<lparr>github := g\<rparr>)")
  with assms(5) have "versions = []" by simp
  with p assms(1-4) show ?thesis by (simp add: Run_def Let_def)
qed

subsection \<open>Sample runs on the mock client\<close>

lemma good_linux_260:
  "good_line ''ddd4444444444444444444444444444444444444444444444444444444444444''
     ''golangci-lint-2.6.0-linux-amd64.tar.gz'' \<lparr>OS = ''linux'', Arch = ''amd64''\<rparr>"
  by (simp add: good_line_def plain_def isValidSHA256_def HasSuffix_def
      ExtractPlatformFromFilename_def pattern_at_def lit_def plus_class_def alt_def
      is_word_def is_digit_or_dot_def is_digit_def)

lemma one_line_parse:
  assumes g: "good_line h f p" and len: "length h + length f + 2 < MaxScanTokenSize"
  shows "ParseChecksumFile (one_line h f) = Inr [(p, h)]"
proof -
  note e = good_line_entry[OF g]
  have raw: "raw_lines [] (one_line h f) = [manifest_line h f]"
    using raw_lines_line[OF e(4), of "[]" "[]"] by (simp add: one_line_def)
  then have ml: "manifest_lines (one_line h f) = [manifest_line h f]"
    by (simp add: manifest_lines_def e(5))
  have f: "fits (one_line h f)" using len by (simp add: fits_def raw e(7))
  from ParseChecksumFile_fits[OF f] show ?thesis
    by (simp add: ParseChecksumFile_def ml e(1) add_entry_def)
qed

lemma parse_260:
  "ParseChecksumFile
     (one_line ''ddd4444444444444444444444444444444444444444444444444444444444444''
        ''golangci-lint-2.6.0-linux-amd64.tar.gz'') =
   Inr [(\<lparr>OS = ''linux'', Arch = ''amd64''\<rparr>,
         ''ddd4444444444444444444444444444444444444444444444444444444444444'')]"
  by (rule one_line_parse[OF good_linux_260]) (simp add: MaxScanTokenSize_def)

lemma parse_bad_line: "ParseChecksumFile ''bad line'' = Inr []"
proof -
  have f: "fits ''bad line''" by (simp add: fits_def MaxScanTokenSize_def)
  have "Fields ''bad line'' = [''bad'', ''line'']"
    by (simp add: Fields_def leading_space_def space_runes_def)
  moreover have "TrimSpace ''bad line'' = ''bad line''"
    by (rule TrimSpace_plain) (simp_all add: plain_def)
  ultimately have "line_entry ''bad line'' = None"
    by (simp add: line_entry_def passes_filters_def isValidSHA256_def)
  with ParseChecksumFile_fits[OF f] show ?thesis
    by (simp add: ParseChecksumFile_def manifest_lines_def dropCR_def add_entry_def)
qed

text \<open>Two releases; the asset of the first is missing, or is a manifest without any
  accepted line.  The second has a manifest of one accepted line.\<close>

definition mock_one_missing :: MockGitHubClient where
  "mock_one_missing =
    \<lparr>Releases = [\<lparr>TagName = ''v2.6.1''\<rparr>, \<lparr>TagName = ''v2.6.0''\<rparr>],
     AssetContents =
       [(''https://github.com/golangci/golangci-lint/releases/download/v2.6.0/golangci-lint-2.6.0-checksums.txt'',
         one_line ''ddd4444444444444444444444444444444444444444444444444444444444444''
           ''golangci-lint-2.6.0-linux-amd64.tar.gz'')],
     GetReleasesError = None, DownloadError = None\<rparr>"

definition mock_one_empty :: MockGitHubClient where
  "mock_one_empty =
    \<lparr>Releases = [\<lparr>TagName = ''v2.6.1''\<rparr>, \<lparr>TagName = ''v2.6.0''\<rparr>],
     AssetContents =
       [(''https://github.com/golangci/golangci-lint/releases/download/v2.6.1/golangci-lint-2.6.1-checksums.txt'',
         ''bad line''),
        (''https://github.com/golangci/golangci-lint/releases/download/v2.6.0/golangci-lint-2.6.0-checksums.txt'',
         one_line ''ddd4444444444444444444444444444444444444444444444444444444444444''
           ''golangci-lint-2.6.0-linux-amd64.tar.gz'')],
     GetReleasesError = None, DownloadError = None\<rparr>"

definition mock_download_error :: MockGitHubClient where
  "mock_download_error =
    \<lparr>Releases = [\<lparr>TagName = ''v2.6.1''\<rparr>], AssetContents = [],
     GetReleasesError = None, DownloadError = Some (Errorf ''network timeout'')\<rparr>"

definition fresh_world :: "MockGitHubClient \<Rightarrow> MockGitHubClient world" where
  "fresh_world m = \<lparr>disk = Map.empty, github = m, downloads = []\<rparr>"

lemmas run_simps = loadFromCacheOrDownload_def os_Stat_def os_WriteFile_def os_ReadFile_def
  MockAPI_def Mock_DownloadAsset_def Mock_GetLatestReleases_def mock_runner_def env_ok_def
  fresh_world_def release_version_def release_world_def Let_def

lemma outcomes_one_missing:
  "outcomes (mock_runner sample_config) env_ok ''/ws/cache'' (Releases mock_one_missing)
     (fresh_world mock_one_missing) =
   [None,
    Some \<lparr>Tag = ''v2.6.0'',
          Checksums = [(\<lparr>OS = ''linux'', Arch = ''amd64''\<rparr>,
            ''ddd4444444444444444444444444444444444444444444444444444444444444'')]\<rparr>]"
  by (simp add: run_simps mock_one_missing_def parse_260)

lemma outcomes_one_empty:
  "outcomes (mock_runner sample_config) env_ok ''/ws/cache'' (Releases mock_one_empty)
     (fresh_world mock_one_empty) =
   [Some \<lparr>Tag = ''v2.6.1'', Checksums = []\<rparr>,
    Some \<lparr>Tag = ''v2.6.0'',
          Checksums = [(\<lparr>OS = ''linux'', Arch = ''amd64''\<rparr>,
            ''ddd4444444444444444444444444444444444444444444444444444444444444'')]\<rparr>]"
  by (simp add: run_simps mock_one_empty_def parse_260 parse_bad_line)

lemma outcomes_download_error:
  "outcomes (mock_runner sample_config) env_ok ''/ws/cache'' (Releases mock_download_error)
     (fresh_world mock_download_error) = [None]"
  by (simp add: run_simps mock_download_error_def)

lemma processReleases_length:
  "length (fst (processReleases r env releases cacheDir w)) =
     length releases - failures r env cacheDir releases w"
  by (simp add: processReleases_def processReleases_loop_outcomes length_map_filter_id
      failures_def length_outcomes)

text \<open>
  Claim C7.  \<open>processReleases\<close> returns the versions of the releases whose outcome is a
  version, in the order of the releases and one for each: those with a non-empty tag
  whose manifest was resolved and parsed, a manifest without any accepted line
  included.  Its length is the number of releases minus the number of those that
  fail, so one failure among \<open>N\<close> releases leaves \<open>N - 1\<close> versions.  When every release
  fails, \<open>Run\<close>, once the directories are made and the releases are listed, returns the
  error \<open>no versions were successfully processed\<close>.
\<close>

theorem processReleases_versions:
  "fst (processReleases r env releases cacheDir w) =
     List.map_filter id (outcomes r env cacheDir releases w) \<and>
   length (outcomes r env cacheDir releases w) = length releases \<and>
   subseq (map Some (fst (processReleases r env releases cacheDir w)))
     (outcomes r env cacheDir releases w) \<and>
   (\<forall>i v. i < length releases \<and> outcomes r env cacheDir releases w ! i = Some v \<longrightarrow>
      Tag v = TagName (releases ! i) \<and> Tag v \<noteq> [] \<and>
      (\<exists>data. ParseChecksumFile data = Inr (Checksums v))) \<and>
   length (fst (processReleases r env releases cacheDir w)) =
     length releases - failures r env cacheDir releases w \<and>
   (failures r env cacheDir releases w = 1 \<longrightarrow>
      length (fst (processReleases r env releases cacheDir w)) = length releases - 1) \<and>
   (resolveAbsolutePaths r env = (absCacheDir, absOutputFile) \<and>
    MkdirAll_err env absCacheDir = None \<and> MkdirAll_err env (Dir env absOutputFile) = None \<and>
    GetLatestReleases (client r) (github w0) (Count (config r)) = (Inr listed, g) \<and>
    failures r env absCacheDir listed (w0\<lparr>github := g\<rparr>) = length listed \<longrightarrow>
      fst (Run r env w0) = Some (Errorf ''no versions were successfully processed''))"
proof -
  let ?vs = "fst (processReleases r env releases cacheDir w)"
  let ?os = "outcomes r env cacheDir releases w"
  have 1: "?vs = List.map_filter id ?os"
    by (simp add: processReleases_def processReleases_loop_outcomes)
  have 2: "length ?os = length releases" by (rule length_outcomes)
  have 3: "subseq (map Some ?vs) ?os" unfolding 1 by (rule map_filter_id_subseq)
  have 4: "\<forall>i v. i < length releases \<and> ?os ! i = Some v \<longrightarrow>
      Tag v = TagName (releases ! i) \<and> Tag v \<noteq> [] \<and>
      (\<exists>data. ParseChecksumFile data = Inr (Checksums v))"
    using outcomes_tags[of _ releases r env cacheDir w] by blast
  have 5: "length ?vs = length releases - failures r env cacheDir releases w"
    by (rule processReleases_length)
  have 6: "length ?vs = length releases - 1" if "failures r env cacheDir releases w = 1"
    using 5 that by simp
  have 7: "fst (Run r env w0) = Some (Errorf ''no versions were successfully processed'')"
    if h: "resolveAbsolutePaths r env = (absCacheDir, absOutputFile) \<and>
    MkdirAll_err env absCacheDir = None \<and> MkdirAll_err env (Dir env absOutputFile) = None \<and>
    GetLatestReleases (client r) (github w0) (Count (config r)) = (Inr listed, g) \<and>
    failures r env absCacheDir listed (w0\<lparr>github := g\<rparr>) = length listed"
  proof -
    from h have "length (fst (processReleases r env listed absCacheDir (w0\<lparr>github := g\<rparr>))) = 0"
      by (simp add: processReleases_length)
    then have e: "fst (processReleases r env listed absCacheDir (w0\<lparr>github := g\<rparr>)) = []"
      by simp
    from h have h1: "resolveAbsolutePaths r env = (absCacheDir, absOutputFile)"
      and h2: "MkdirAll_err env absCacheDir = None"
      and h3: "MkdirAll_err env (Dir env absOutputFile) = None"
      and h4: "GetLatestReleases (client r) (github w0) (Count (config r)) = (Inr listed, g)"
      by simp_all
    show ?thesis by (rule Run_no_versions[OF h1 h2 h3 h4 e])
  qed
  show ?thesis
  proof (intro conjI impI)
    show "?vs = List.map_filter id ?os" by (rule 1)
    show "length ?os = length releases" by (rule 2)
    show "subseq (map Some ?vs) ?os" by (rule 3)
    show "\<forall>i v. i < length releases \<and> ?os ! i = Some v \<longrightarrow>
      Tag v = TagName (releases ! i) \<and> Tag v \<noteq> [] \<and>
      (\<exists>data. ParseChecksumFile data = Inr (Checksums v))" by (rule 4)
    show "length ?vs = length releases - failures r env cacheDir releases w" by (rule 5)
  qed (erule 6, erule 7)
qed

theorem processReleases_versions_witness:
  "fst (processReleases (mock_runner sample_config) env_ok (Releases mock_one_missing) ''/ws/cache''
         (fresh_world mock_one_missing)) =
     [\<lparr>Tag = ''v2.6.0'',
       Checksums = [(\<lparr>OS = ''linux'', Arch = ''amd64''\<rparr>,
         ''ddd4444444444444444444444444444444444444444444444444444444444444'')]\<rparr>] \<and>
   failures (mock_runner sample_config) env_ok ''/ws/cache'' (Releases mock_one_missing)
     (fresh_world mock_one_missing) = 1 \<and>
   length (fst (processReleases (mock_runner sample_config) env_ok (Releases mock_one_missing)
         ''/ws/cache'' (fresh_world mock_one_missing))) = 2 - 1 \<and>
   fst (processReleases (mock_runner sample_config) env_ok (Releases mock_one_empty) ''/ws/cache''
         (fresh_world mock_one_empty)) =
     [\<lparr>Tag = ''v2.6.1'', Checksums = []\<rparr>,
      \<lparr>Tag = ''v2.6.0'',
       Checksums = [(\<lparr>OS = ''linux'', Arch = ''amd64''\<rparr>,
         ''ddd4444444444444444444444444444444444444444444444444444444444444'')]\<rparr>] \<and>
   fst (Run (mock_runner sample_config) env_ok (fresh_world mock_download_error)) =
     Some (Errorf ''no versions were successfully processed'')"
proof -
  let ?r = "mock_runner sample_config"
  note a = processReleases_versions[of ?r env_ok "Releases mock_one_missing" "''/ws/cache''"
      "fresh_world mock_one_missing"]
  note b = processReleases_versions[of ?r env_ok "Releases mock_one_empty" "''/ws/cache''"
      "fresh_world mock_one_empty"]
  note c = processReleases_versions[of ?r env_ok "Releases mock_download_error" "''/ws/cache''"
      "fresh_world mock_download_error" "''/ws/cache''" "''/ws/versions.bzl''"
      "fresh_world mock_download_error" "Releases mock_download_error" mock_download_error]
  have fa: "failures ?r env_ok ''/ws/cache'' (Releases mock_one_missing)
      (fresh_world mock_one_missing) = 1"
    by (simp add: failures_def outcomes_one_missing)
  have 1: "fst (processReleases ?r env_ok (Releases mock_one_missing) ''/ws/cache''
         (fresh_world mock_one_missing)) =
     [\<lparr>Tag = ''v2.6.0'',
       Checksums = [(\<lparr>OS = ''linux'', Arch = ''amd64''\<rparr>,
         ''ddd4444444444444444444444444444444444444444444444444444444444444'')]\<rparr>]"
    using a by (simp add: outcomes_one_missing List.map_filter_simps)
  have 2: "fst (processReleases ?r env_ok (Releases mock_one_empty) ''/ws/cache''
         (fresh_world mock_one_empty)) =
     [\<lparr>Tag = ''v2.6.1'', Checksums = []\<rparr>,
      \<lparr>Tag = ''v2.6.0'',
       Checksums = [(\<lparr>OS = ''linux'', Arch = ''amd64''\<rparr>,
         ''ddd4444444444444444444444444444444444444444444444444444444444444'')]\<rparr>]"
    using b by (simp add: outcomes_one_empty List.map_filter_simps)
  have h: "resolveAbsolutePaths ?r env_ok = (''/ws/cache'', ''/ws/versions.bzl'') \<and>
    MkdirAll_err env_ok ''/ws/cache'' = None \<and>
    MkdirAll_err env_ok (Dir env_ok ''/ws/versions.bzl'') = None \<and>
    GetLatestReleases (client ?r) (github (fresh_world mock_download_error)) (Count (config ?r)) =
      (Inr (Releases mock_download_error), mock_download_error) \<and>
    failures ?r env_ok ''/ws/cache'' (Releases mock_download_error)
      ((fresh_world mock_download_error)\<lparr>github := mock_download_error\<rparr>) =
      length (Releases mock_download_error)"
  proof -
    have "(fresh_world mock_download_error)\<lparr>github := mock_download_error\<rparr> =
        fresh_world mock_download_error" by (simp add: fresh_world_def)
    then have "failures ?r env_ok ''/ws/cache'' (Releases mock_download_error)
      ((fresh_world mock_download_error)\<lparr>github := mock_download_error\<rparr>) =
      length (Releases mock_download_error)"
      by (simp add: failures_def outcomes_download_error) (simp add: mock_download_error_def)
    moreover have "resolveAbsolutePaths ?r env_ok = (''/ws/cache'', ''/ws/versions.bzl'')"
      by (simp add: resolveAbsolutePaths_def mock_runner_def sample_config_def env_ok_def)
    moreover have "MkdirAll_err env_ok ''/ws/cache'' = None"
      "MkdirAll_err env_ok (Dir env_ok ''/ws/versions.bzl'') = None"
      by (simp_all add: env_ok_def)
    moreover have "GetLatestReleases (client ?r) (github (fresh_world mock_download_error))
        (Count (config ?r)) = (Inr (Releases mock_download_error), mock_download_error)"
      by (simp add: mock_runner_def sample_config_def MockAPI_def Mock_GetLatestReleases_def
          fresh_world_def mock_download_error_def)
    ultimately show ?thesis by blast
  qed
  from c h have 3: "fst (Run ?r env_ok (fresh_world mock_download_error)) =
     Some (Errorf ''no versions were successfully processed'')" by blast
  from 1 2 3 fa show ?thesis by simp
qed

end
